theory Spec2Isabelle
  imports Main "HOL-Library.Sublist" "HOL-Library.Multiset"
begin

section \<open>Generation client (services/gemini.ts and its API-key variant)\<close>

text \<open>
  A JavaScript \<open>Error\<close> as the retry logic sees it: the optional numeric \<open>status\<close> set by
  the SDK on HTTP failures, and the \<open>message\<close>.
\<close>

datatype error = Error (err_status: "nat option") (err_message: string)

text \<open>
  A part of \<open>response.candidates[0].content.parts\<close>. \<open>InlinePart d\<close> is a part whose
  \<open>inlineData\<close> is present with \<open>data = d\<close> (an absent \<open>data\<close> is the empty string, both
  are falsy); \<open>TextPart\<close> is a part without \<open>inlineData\<close>.
\<close>

datatype part = TextPart string | InlinePart string

text \<open>
  The \<open>image\<close> property of a generated Imagen image: a string, a Blob (given by the data
  URL that \<open>FileReader.readAsDataURL\<close> produces for it), or anything else.
\<close>

datatype imagen_image = ImgString string | ImgBlob string | ImgOther

text \<open>
  A \<open>File\<close>: its name, its MIME type, its \<open>webkitRelativePath\<close> (empty unless the file
  comes from a directory picker) and what \<open>readAsDataURL\<close> yields after the comma
  (\<open>None\<close> when \<open>reader.onerror\<close> fires).
\<close>

record File =
  file_name :: string
  file_type :: string
  webkitRelativePath :: string
  file_data :: "string option"

text \<open>
  What lies outside the program. The remote API answers the attempt with retry count \<open>k\<close>
  of a call either by throwing or with a response: \<open>generateContent\<close> gives the parts of
  the first candidate (\<open>None\<close> when \<open>candidates?.[0]?.content?.parts\<close> is absent),
  \<open>generateImages\<close> gives \<open>response.generatedImages\<close>. \<open>decode\<close> is the browser's image
  decoder (\<open>img.onload\<close> with the natural width and height, or \<open>img.onerror\<close>),
  \<open>getContext2d\<close> tells whether \<open>canvas.getContext('2d')\<close> is non-null, and \<open>env_key\<close> is
  \<open>import.meta.env.VITE_GEMINI_API_KEY\<close> (empty when undefined).
\<close>

record env =
  generateContent :: "nat \<Rightarrow> error + part list option"
  generateImages :: "nat \<Rightarrow> error + imagen_image list option"
  decode :: "string \<Rightarrow> (nat \<times> nat) option"
  getContext2d :: bool
  env_key :: string

text \<open>
  An encoded image handed back to the caller: a data URL string taken over as it is, or
  \<open>canvas.toDataURL('image/png')\<close> of a canvas of the given width and height onto which
  the image with the given source was drawn stretched to the whole canvas.
\<close>

datatype encodedImage = DataUrl string | CanvasPng nat nat string

fun dims :: "env \<Rightarrow> encodedImage \<Rightarrow> (nat \<times> nat) option" where
  "dims e (DataUrl s) = decode e s"
| "dims e (CanvasPng w h src) = Some (w, h)"

text \<open>What a call did to the outside, in order.\<close>

datatype api = GenerateContent | GenerateImages

datatype event = Call api nat | Sleep nat

definition isImagenModel :: "string \<Rightarrow> bool" where
  "isImagenModel model = prefix ''imagen-'' model"

text \<open>The test of every \<open>catch\<close> block: \<open>err.status >= 500 || err.status === 429\<close>.\<close>

definition retryable :: "error \<Rightarrow> bool" where
  "retryable err = (case err_status err of None \<Rightarrow> False | Some s \<Rightarrow> s \<ge> 500 \<or> s = 429)"

text \<open>\<open>Math.pow(2, retryCount) * 1000\<close>, in milliseconds.\<close>

definition delay :: "nat \<Rightarrow> nat" where
  "delay retryCount = 2 ^ retryCount * 1000"

definition missing_env_key :: error where
  "missing_env_key = Error None ''VITE_GEMINI_API_KEY is not defined in environment variables''"

definition missing_api_key :: error where
  "missing_api_key =
     Error None ''API Key is required. Please enter your Gemini API key in the settings.''"

definition no_image_data :: error where
  "no_image_data = Error None ''No image data returned from model.''"

definition no_imagen_data :: error where
  "no_imagen_data = Error None ''No image data returned from Imagen model.''"

definition unexpected_format :: error where
  "unexpected_format = Error None ''Unexpected image format from Imagen model.''"

definition load_failed :: error where
  "load_failed = Error None ''Failed to load image for resizing''"

definition no_context :: error where
  "no_context = Error None ''Failed to get canvas context''"

text \<open>The rejection of a \<open>FileReader\<close>: a progress event, with neither status nor message.\<close>

definition read_failed :: error where
  "read_failed = Error None []"

text \<open>
  The loop over the parts that keeps the data of the first part with \<open>inlineData\<close> and
  breaks; \<open>resultBase64\<close> starts as the empty string.
\<close>

fun first_inline :: "part list \<Rightarrow> string" where
  "first_inline [] = []"
| "first_inline (InlinePart d # ps) = d"
| "first_inline (TextPart t # ps) = first_inline ps"

definition resultBase64 :: "part list option \<Rightarrow> string" where
  "resultBase64 parts = (case parts of None \<Rightarrow> [] | Some ps \<Rightarrow> first_inline ps)"

definition readable :: "File list \<Rightarrow> bool" where
  "readable referenceFiles = list_all (\<lambda>f. file_data f \<noteq> None) referenceFiles"

subsection \<open>The transcoder\<close>

text \<open>
  \<open>resizeBase64Image\<close>: canvas of \<open>targetSize\<close> by \<open>targetSize\<close>, whatever the image is.
  The width and height of a canvas take the values below \<open>2 ^ 31\<close>; the two resize
  operations are rendered for such values, and what the browser makes of larger ones is
  not.
\<close>

definition resizeBase64Image :: "env \<Rightarrow> string \<Rightarrow> nat \<Rightarrow> error + encodedImage" where
  "resizeBase64Image e base64Image targetSize =
     (case decode e base64Image of
        None \<Rightarrow> Inl load_failed
      | Some wh \<Rightarrow>
          if getContext2d e then Inr (CanvasPng targetSize targetSize base64Image)
          else Inl no_context)"



subsection \<open>Single-view calls of services/gemini.ts\<close>

function generateWithImagen ::
  "env \<Rightarrow> string \<Rightarrow> string \<Rightarrow> string \<Rightarrow> string \<Rightarrow> nat \<Rightarrow> nat
     \<Rightarrow> (error + encodedImage) \<times> event list" where
  "generateWithImagen e productName productDescription angle model targetWidth retryCount =
     (if env_key e = [] then (Inl missing_env_key, [])
      else case generateImages e retryCount of
        Inl err \<Rightarrow>
          if retryCount < 3 \<and> retryable err then
            (case generateWithImagen e productName productDescription angle model targetWidth
                    (retryCount + 1) of
               (r, t) \<Rightarrow> (r, Call GenerateImages retryCount # Sleep (delay retryCount) # t))
          else (Inl err, [Call GenerateImages retryCount])
      | Inr None \<Rightarrow> (Inl no_imagen_data, [Call GenerateImages retryCount])
      | Inr (Some []) \<Rightarrow> (Inl no_imagen_data, [Call GenerateImages retryCount])
      | Inr (Some (ImgString s # gs)) \<Rightarrow>
          if prefix ''data:'' s then (Inr (DataUrl s), [Call GenerateImages retryCount])
          else (Inl unexpected_format, [Call GenerateImages retryCount])
      | Inr (Some (ImgBlob s # gs)) \<Rightarrow> (Inr (DataUrl s), [Call GenerateImages retryCount])
      | Inr (Some (ImgOther # gs)) \<Rightarrow> (Inl unexpected_format, [Call GenerateImages retryCount]))"
  by pat_completeness auto
termination
  by (relation "measure (\<lambda>(e, pn, pd, a, m, tw, retryCount). 3 - retryCount)") auto

function generateProductAngle ::
  "env \<Rightarrow> File list \<Rightarrow> string \<Rightarrow> string \<Rightarrow> string \<Rightarrow> string \<Rightarrow> nat \<Rightarrow> nat
     \<Rightarrow> (error + encodedImage) \<times> event list" where
  "generateProductAngle e referenceFiles productName productDescription angle model targetWidth
       retryCount =
     (if env_key e = [] then (Inl missing_env_key, [])
      else if isImagenModel model then
        generateWithImagen e productName productDescription angle model targetWidth retryCount
      else if \<not> readable referenceFiles then (Inl read_failed, [])
      else case generateContent e retryCount of
        Inl err \<Rightarrow>
          if retryCount < 3 \<and> retryable err then
            (case generateProductAngle e referenceFiles productName productDescription angle
                    model targetWidth (retryCount + 1) of
               (r, t) \<Rightarrow> (r, Call GenerateContent retryCount # Sleep (delay retryCount) # t))
          else (Inl err, [Call GenerateContent retryCount])
      | Inr parts \<Rightarrow>
          if resultBase64 parts = [] then (Inl no_image_data, [Call GenerateContent retryCount])
          else (Inr (DataUrl (''data:image/png;base64,'' @ resultBase64 parts)),
                [Call GenerateContent retryCount]))"
  by pat_completeness auto
termination
  by (relation "measure (\<lambda>(e, rf, pn, pd, a, m, tw, retryCount). 3 - retryCount)") auto

subsection \<open>Single-view calls of the variant that takes the API key as a parameter\<close>

text \<open>
  The second copy of the client in the repository differs from services/gemini.ts in two
  ways: the key is \<open>apiKey || import.meta.env.VITE_GEMINI_API_KEY\<close>, and every image is
  passed through \<open>resizeBase64Image\<close> before it is returned. Its functions carry the
  suffix \<open>_2\<close> here.
\<close>

function generateWithImagen_2 ::
  "env \<Rightarrow> string \<Rightarrow> string \<Rightarrow> string \<Rightarrow> string \<Rightarrow> nat \<Rightarrow> string \<Rightarrow> nat
     \<Rightarrow> (error + encodedImage) \<times> event list" where
  "generateWithImagen_2 e productName productDescription angle model targetWidth apiKey
       retryCount =
     (if apiKey = [] then (Inl missing_api_key, [])
      else case generateImages e retryCount of
        Inl err \<Rightarrow>
          if retryCount < 3 \<and> retryable err then
            (case generateWithImagen_2 e productName productDescription angle model targetWidth
                    apiKey (retryCount + 1) of
               (r, t) \<Rightarrow> (r, Call GenerateImages retryCount # Sleep (delay retryCount) # t))
          else (Inl err, [Call GenerateImages retryCount])
      | Inr None \<Rightarrow> (Inl no_imagen_data, [Call GenerateImages retryCount])
      | Inr (Some []) \<Rightarrow> (Inl no_imagen_data, [Call GenerateImages retryCount])
      | Inr (Some (ImgString s # gs)) \<Rightarrow>
          if prefix ''data:'' s then
            (resizeBase64Image e s targetWidth, [Call GenerateImages retryCount])
          else (Inl unexpected_format, [Call GenerateImages retryCount])
      | Inr (Some (ImgBlob s # gs)) \<Rightarrow>
          (resizeBase64Image e s targetWidth, [Call GenerateImages retryCount])
      | Inr (Some (ImgOther # gs)) \<Rightarrow> (Inl unexpected_format, [Call GenerateImages retryCount]))"
  by pat_completeness auto
termination
  by (relation "measure (\<lambda>(e, pn, pd, a, m, tw, k, retryCount). 3 - retryCount)") auto

definition key_of :: "env \<Rightarrow> string \<Rightarrow> string" where
  "key_of e apiKey = (if apiKey \<noteq> [] then apiKey else env_key e)"

function generateProductAngle_2 ::
  "env \<Rightarrow> File list \<Rightarrow> string \<Rightarrow> string \<Rightarrow> string \<Rightarrow> string \<Rightarrow> nat \<Rightarrow> string \<Rightarrow> nat
     \<Rightarrow> (error + encodedImage) \<times> event list" where
  "generateProductAngle_2 e referenceFiles productName productDescription angle model
       targetWidth apiKey retryCount =
     (if key_of e apiKey = [] then (Inl missing_api_key, [])
      else if isImagenModel model then
        generateWithImagen_2 e productName productDescription angle model targetWidth
          (key_of e apiKey) retryCount
      else if \<not> readable referenceFiles then (Inl read_failed, [])
      else case generateContent e retryCount of
        Inl err \<Rightarrow>
          if retryCount < 3 \<and> retryable err then
            (case generateProductAngle_2 e referenceFiles productName productDescription angle
                    model targetWidth (key_of e apiKey) (retryCount + 1) of
               (r, t) \<Rightarrow> (r, Call GenerateContent retryCount # Sleep (delay retryCount) # t))
          else (Inl err, [Call GenerateContent retryCount])
      | Inr parts \<Rightarrow>
          if resultBase64 parts = [] then (Inl no_image_data, [Call GenerateContent retryCount])
          else (resizeBase64Image e (''data:image/png;base64,'' @ resultBase64 parts) targetWidth,
                [Call GenerateContent retryCount]))"
  by pat_completeness auto
termination
  by (relation "measure (\<lambda>(e, rf, pn, pd, a, m, tw, k, retryCount). 3 - retryCount)") auto

subsection \<open>Batched calls\<close>

text \<open>The \<open>while\<close> loop that pushes the last element until the list is long enough.\<close>

function pad :: "'a list \<Rightarrow> nat \<Rightarrow> 'a list" where
  "pad resultImages n =
     (if length resultImages < n then pad (resultImages @ [last resultImages]) n
      else resultImages)"
  by pat_completeness auto
termination
  by (relation "measure (\<lambda>(resultImages, n). n - length resultImages)") auto

text \<open>services/gemini.ts: one data URL per part that has \<open>inlineData\<close>.\<close>

fun extract_images :: "part list \<Rightarrow> encodedImage list" where
  "extract_images [] = []"
| "extract_images (InlinePart d # ps) = DataUrl (''data:image/png;base64,'' @ d) # extract_images ps"
| "extract_images (TextPart t # ps) = extract_images ps"

text \<open>
  The variant: each such part is resized before it is pushed, and the first resize that
  rejects ends the loop by throwing.
\<close>

fun extract_resized :: "env \<Rightarrow> nat \<Rightarrow> part list \<Rightarrow> error + encodedImage list" where
  "extract_resized e targetWidth [] = Inr []"
| "extract_resized e targetWidth (InlinePart d # ps) =
     (case resizeBase64Image e (''data:image/png;base64,'' @ d) targetWidth of
        Inl err \<Rightarrow> Inl err
      | Inr img \<Rightarrow>
          (case extract_resized e targetWidth ps of
             Inl err \<Rightarrow> Inl err
           | Inr imgs \<Rightarrow> Inr (img # imgs)))"
| "extract_resized e targetWidth (TextPart t # ps) = extract_resized e targetWidth ps"

text \<open>\<open>resultImages\<close> after the loop; it stays empty when the response has no parts.\<close>

definition collect_images :: "part list option \<Rightarrow> encodedImage list" where
  "collect_images parts = (case parts of None \<Rightarrow> [] | Some ps \<Rightarrow> extract_images ps)"

definition collect_resized :: "env \<Rightarrow> nat \<Rightarrow> part list option \<Rightarrow> error + encodedImage list" where
  "collect_resized e targetWidth parts =
     (case parts of None \<Rightarrow> Inr [] | Some ps \<Rightarrow> extract_resized e targetWidth ps)"

text \<open>What follows the extraction, in both copies.\<close>

definition fit_to_angles :: "'a list \<Rightarrow> nat \<Rightarrow> error + 'a list" where
  "fit_to_angles resultImages n =
     (if length resultImages = 0 then Inl no_image_data
      else Inr (take n (pad resultImages n)))"

function generateAllProductAngles ::
  "env \<Rightarrow> File list \<Rightarrow> string \<Rightarrow> string \<Rightarrow> (string \<times> string) list \<Rightarrow> string \<Rightarrow> nat \<Rightarrow> nat
     \<Rightarrow> (error + encodedImage list) \<times> event list" where
  "generateAllProductAngles e referenceFiles productName productDescription angles model
       targetWidth retryCount =
     (if env_key e = [] then (Inl missing_env_key, [])
      else if \<not> readable referenceFiles then (Inl read_failed, [])
      else case generateContent e retryCount of
        Inl err \<Rightarrow>
          if retryCount < 3 \<and> retryable err then
            (case generateAllProductAngles e referenceFiles productName productDescription
                    angles model targetWidth (retryCount + 1) of
               (r, t) \<Rightarrow> (r, Call GenerateContent retryCount # Sleep (delay retryCount) # t))
          else (Inl err, [Call GenerateContent retryCount])
      | Inr parts \<Rightarrow>
          (fit_to_angles (collect_images parts) (length angles),
           [Call GenerateContent retryCount]))"
  by pat_completeness auto
termination
  by (relation "measure (\<lambda>(e, rf, pn, pd, a, m, tw, retryCount). 3 - retryCount)") auto

function generateAllProductAngles_2 ::
  "env \<Rightarrow> File list \<Rightarrow> string \<Rightarrow> string \<Rightarrow> (string \<times> string) list \<Rightarrow> string \<Rightarrow> nat \<Rightarrow> string
     \<Rightarrow> nat \<Rightarrow> (error + encodedImage list) \<times> event list" where
  "generateAllProductAngles_2 e referenceFiles productName productDescription angles model
       targetWidth apiKey retryCount =
     (if key_of e apiKey = [] then (Inl missing_api_key, [])
      else if \<not> readable referenceFiles then (Inl read_failed, [])
      else case generateContent e retryCount of
        Inl err \<Rightarrow>
          if retryCount < 3 \<and> retryable err then
            (case generateAllProductAngles_2 e referenceFiles productName productDescription
                    angles model targetWidth (key_of e apiKey) (retryCount + 1) of
               (r, t) \<Rightarrow> (r, Call GenerateContent retryCount # Sleep (delay retryCount) # t))
          else (Inl err, [Call GenerateContent retryCount])
      | Inr parts \<Rightarrow>
          (case collect_resized e targetWidth parts of
             Inl err \<Rightarrow> Inl err
           | Inr resultImages \<Rightarrow> fit_to_angles resultImages (length angles),
           [Call GenerateContent retryCount]))"
  by pat_completeness auto
termination
  by (relation "measure (\<lambda>(e, rf, pn, pd, a, m, tw, k, retryCount). 3 - retryCount)") auto

text \<open>
  The recursive equations of the calls are unfolded by hand in the proofs, one attempt at
  a time.
\<close>

declare generateWithImagen.simps [simp del]
declare generateProductAngle.simps [simp del]
declare generateWithImagen_2.simps [simp del]
declare generateProductAngle_2.simps [simp del]
declare generateAllProductAngles.simps [simp del]
declare generateAllProductAngles_2.simps [simp del]
declare pad.simps [simp del]

subsection \<open>Vocabulary for the properties of the client\<close>

text \<open>
  Which remote operation a single-view call uses for a model, and the error (if any) that
  this operation throws at the attempt with retry count \<open>k\<close>.
\<close>

definition api_of :: "string \<Rightarrow> api" where
  "api_of model = (if isImagenModel model then GenerateImages else GenerateContent)"

definition thrown :: "env \<Rightarrow> string \<Rightarrow> nat \<Rightarrow> error option" where
  "thrown e model k =
     (if isImagenModel model
      then (case generateImages e k of Inl err \<Rightarrow> Some err | Inr r \<Rightarrow> None)
      else (case generateContent e k of Inl err \<Rightarrow> Some err | Inr r \<Rightarrow> None))"

definition retry_trace :: "api \<Rightarrow> event list" where
  "retry_trace p = [Call p 0, Sleep 1000, Call p 1, Sleep 2000, Call p 2, Sleep 4000, Call p 3]"

text \<open>Two remotes for the examples: one always answers 500, the other always 400.\<close>

definition e500 :: env where
  "e500 = \<lparr>generateContent = (\<lambda>k. Inl (Error (Some 500) ''Internal error'')),
           generateImages = (\<lambda>k. Inr None), decode = (\<lambda>s. None), getContext2d = True,
           env_key = ''key''\<rparr>"

definition e400 :: env where
  "e400 = \<lparr>generateContent = (\<lambda>k. Inl (Error (Some 400) ''Bad request'')),
           generateImages = (\<lambda>k. Inr None), decode = (\<lambda>s. None), getContext2d = True,
           env_key = ''key''\<rparr>"

text \<open>
  The raw image that the remote hands over at the attempt with retry count \<open>k\<close>, as the
  data URL that the single-view call builds or takes from it (\<open>None\<close> when the attempt
  throws or carries no usable image).
\<close>

definition raw_image :: "env \<Rightarrow> string \<Rightarrow> nat \<Rightarrow> string option" where
  "raw_image e model k =
     (if isImagenModel model then
        (case generateImages e k of
           Inr (Some (ImgString s # gs)) \<Rightarrow> if prefix ''data:'' s then Some s else None
         | Inr (Some (ImgBlob s # gs)) \<Rightarrow> Some s
         | _ \<Rightarrow> None)
      else
        (case generateContent e k of
           Inr parts \<Rightarrow>
             if resultBase64 parts = [] then None
             else Some (''data:image/png;base64,'' @ resultBase64 parts)
         | Inl err \<Rightarrow> None))"

text \<open>
  A remote that answers every \<open>generateContent\<close> with the given parts and every
  \<open>generateImages\<close> with one data URL; every image decodes to 1024 by 768 pixels.
\<close>

definition e_parts :: "part list \<Rightarrow> env" where
  "e_parts ps = \<lparr>generateContent = (\<lambda>k. Inr (Some ps)),
                 generateImages = (\<lambda>k. Inr (Some [ImgString ''data:image/png;base64,QUJD''])),
                 decode = (\<lambda>s. Some (1024, 768)), getContext2d = True, env_key = ''key''\<rparr>"

text \<open>The same remote without any credential in the environment.\<close>

definition e_nokey :: env where
  "e_nokey = (e_parts [InlinePart ''QUJD''])\<lparr>env_key := []\<rparr>"



section \<open>The application (App.tsx)\<close>

subsection \<open>Data model (types.ts)\<close>

datatype image_status = Pending | Processing | Completed | Failed

text \<open>
  The \<open>preview\<close> string of an image: an object URL made for a picked file (given by the
  path of that file), the URL returned by the generation client, or the empty string.
\<close>

datatype preview = ObjectURL string | ResultURL encodedImage | NoURL

text \<open>
  The fields of the three interfaces carry a prefix here, since \<open>name\<close> occurs in all of
  them.
\<close>

record ImageFile =
  img_file :: File
  img_preview :: preview
  img_status :: image_status
  img_name :: string
  img_path :: string
  img_angle :: "string option"

record Product =
  p_name :: string
  p_images :: "ImageFile list"
  p_generatedImages :: "ImageFile list"

record AngleConfig =
  a_name :: string
  a_prompt :: string
  a_enabled :: bool

datatype app_status = AppIdle | AppProcessing | AppCompleted | AppError

text \<open>
  The activity log. The texts of the entries are kept as constructors with the values
  they interpolate; the wall-clock time of an entry and the measured durations are left
  out.
\<close>

datatype severity = Info | Success | Err | Warning

datatype log_message =
    StartingGeneration
  | StopRequestedByUser
  | StoppedByUser
  | ProcessingProduct string
  | ApiRequest nat string
  | AngleCompleted string
  | AngleFailed string string
  | TotalApiRequests nat
  | AllProductsCompleted
  | LoadedProducts nat

datatype api_status = NoApiStatus | Generating string string | StoppedStatus | CompletedStatus

text \<open>
  The \<open>useState\<close> cells of the component. Every render binds the current values of the
  cells to constants (\<open>const [stopRequested, setStopRequested] = useState(false)\<close>) and
  creates the handlers anew; a handler, also while it waits for a call, reads the constants
  of the render that created it, and the setters write to the cells. In the definitions
  below \<open>c\<close> stands for the values of the handler's render and \<open>s\<close> for the cells.
\<close>

record app =
  products :: "Product list"
  currentProductIndex :: nat
  status :: app_status
  error :: string
  apiKey :: string
  productDescription :: string
  angles :: "AngleConfig list"
  modelName :: string
  targetWidth :: nat
  batchSize :: nat
  totalAnglesProcessed :: nat
  totalAnglesToProcess :: nat
  apiRequestCount :: nat
  stopRequested :: bool
  currentApiStatus :: api_status
  activityLog :: "(log_message \<times> severity) list"

text \<open>\<open>addLog\<close>: keep the last ten entries and append the new one.\<close>

definition addLog :: "log_message \<Rightarrow> severity \<Rightarrow> app \<Rightarrow> app" where
  "addLog message type s =
     s\<lparr>activityLog := drop (length (activityLog s) - 10) (activityLog s) @ [(message, type)]\<rparr>"

subsection \<open>What surrounds a run\<close>

text \<open>
  \<open>client k\<close> is the \<open>k\<close>-th call of \<open>generateProductAngle\<close> that a run makes, as a function
  of the seven arguments that App.tsx passes; \<open>fetch\<close> reads the returned URL;
  \<open>stop_click k\<close> tells whether the user presses STOP while the \<open>k\<close>-th call is in flight.
\<close>

record world =
  client :: "nat \<Rightarrow> File list \<Rightarrow> string \<Rightarrow> string \<Rightarrow> string \<Rightarrow> string \<Rightarrow> nat \<Rightarrow> string
               \<Rightarrow> error + encodedImage"
  fetch :: "encodedImage \<Rightarrow> error + string"
  stop_click :: "nat \<Rightarrow> bool"

text \<open>The \<open>onClick\<close> of the STOP button, which is rendered only while processing.\<close>

definition request_stop :: "app \<Rightarrow> app" where
  "request_stop s =
     (if status s = AppProcessing
      then addLog StopRequestedByUser Warning (s\<lparr>stopRequested := True\<rparr>)
      else s)"

subsection \<open>\<open>handleGenerateBatch\<close>\<close>

datatype ('r, 'a) flow = Returned 'r | Next 'a

definition enabledAngles :: "app \<Rightarrow> AngleConfig list" where
  "enabledAngles c = filter a_enabled (angles c)"

definition productsToProcess :: "app \<Rightarrow> Product list" where
  "productsToProcess c =
     (let startIndex = currentProductIndex c;
          endIndex = min (startIndex + batchSize c) (length (products c))
      in take (endIndex - startIndex) (drop startIndex (products c)))"

text \<open>The statements before the loop, from \<open>setStatus('processing')\<close> to the first log.\<close>

definition run_start :: "app \<Rightarrow> app \<Rightarrow> app" where
  "run_start c s =
     addLog StartingGeneration Info
       (s\<lparr>status := AppProcessing, error := [],
          totalAnglesToProcess := length (productsToProcess c) * length (enabledAngles c),
          totalAnglesProcessed := 0, apiRequestCount := 0, activityLog := []\<rparr>)"

text \<open>The body of both \<open>if (stopRequested)\<close> blocks.\<close>

definition stop_run :: "app \<Rightarrow> app" where
  "stop_run s =
     (addLog StoppedByUser Warning s)
       \<lparr>status := AppCompleted, currentApiStatus := StoppedStatus, stopRequested := False\<rparr>"

definition completed_image :: "Product \<Rightarrow> AngleConfig \<Rightarrow> encodedImage \<Rightarrow> string \<Rightarrow> ImageFile" where
  "completed_image product angle blobUrl blob =
     \<lparr>img_file = \<lparr>file_name = a_name angle @ ''.png'', file_type = ''image/png'',
                   webkitRelativePath = [], file_data = Some blob\<rparr>,
      img_preview = ResultURL blobUrl, img_status = Completed,
      img_name = a_name angle @ ''.png'',
      img_path = p_name product @ ''/'' @ a_name angle @ ''.png'',
      img_angle = Some (a_name angle)\<rparr>"

definition failed_image :: "Product \<Rightarrow> AngleConfig \<Rightarrow> ImageFile" where
  "failed_image product angle =
     \<lparr>img_file = \<lparr>file_name = a_name angle @ ''.png'', file_type = [],
                   webkitRelativePath = [], file_data = Some []\<rparr>,
      img_preview = NoURL, img_status = Failed,
      img_name = a_name angle @ ''.png'',
      img_path = p_name product @ ''/'' @ a_name angle @ ''.png'',
      img_angle = Some (a_name angle)\<rparr>"

text \<open>The call as App.tsx writes it, with the values of the handler's render.\<close>

definition call_client :: "world \<Rightarrow> app \<Rightarrow> Product \<Rightarrow> AngleConfig \<Rightarrow> nat \<Rightarrow> error + encodedImage" where
  "call_client w c product angle k =
     client w k (map img_file (p_images product)) (p_name product)
       (if productDescription c = [] then ''A high-quality product'' else productDescription c)
       (a_prompt angle) (modelName c) (targetWidth c) (apiKey c)"

text \<open>The \<open>catch\<close> block of the batch handler.\<close>

definition batch_catch ::
  "Product \<Rightarrow> AngleConfig \<Rightarrow> error \<Rightarrow> app \<times> ImageFile list \<times> nat \<Rightarrow> app \<times> ImageFile list \<times> nat" where
  "batch_catch product angle err acc =
     (case acc of (s, generatedImages, k) \<Rightarrow>
        (let s1 = s\<lparr>apiRequestCount := apiRequestCount s + 1\<rparr>;
             s2 = addLog (AngleFailed (a_name angle) (err_message err)) Err s1
         in (s2\<lparr>totalAnglesProcessed := totalAnglesProcessed s2 + 1\<rparr>,
             generatedImages @ [failed_image product angle], k)))"

text \<open>
  The \<open>try\<close> statement for one angle of one product. The state is the cells, the local
  array \<open>generatedImages\<close> and the number of client calls made so far.
\<close>

definition batch_unit ::
  "world \<Rightarrow> app \<Rightarrow> Product \<Rightarrow> AngleConfig \<Rightarrow> app \<times> ImageFile list \<times> nat
     \<Rightarrow> app \<times> ImageFile list \<times> nat" where
  "batch_unit w c product angle acc =
     (case acc of (s, generatedImages, k) \<Rightarrow>
        (let s1 = s\<lparr>currentApiStatus := Generating (a_name angle) (p_name product)\<rparr>;
             s2 = addLog (ApiRequest (apiRequestCount c + 1) (a_name angle)) Info s1;
             s3 = (if stop_click w k then request_stop s2 else s2)
         in case call_client w c product angle k of
              Inl err \<Rightarrow> batch_catch product angle err (s3, generatedImages, k + 1)
            | Inr blobUrl \<Rightarrow>
                (let s4 = s3\<lparr>apiRequestCount := apiRequestCount s3 + 1\<rparr>;
                     s5 = addLog (AngleCompleted (a_name angle)) Success s4
                 in case fetch w blobUrl of
                      Inl err \<Rightarrow> batch_catch product angle err (s5, generatedImages, k + 1)
                    | Inr blob \<Rightarrow>
                        (s5\<lparr>totalAnglesProcessed := totalAnglesProcessed s5 + 1\<rparr>,
                         generatedImages @ [completed_image product angle blobUrl blob],
                         k + 1))))"

text \<open>The loop over the enabled angles; the flag it tests is the one of the render.\<close>

fun batch_angles ::
  "world \<Rightarrow> app \<Rightarrow> Product \<Rightarrow> AngleConfig list \<Rightarrow> app \<times> ImageFile list \<times> nat
     \<Rightarrow> (app \<times> nat, app \<times> ImageFile list \<times> nat) flow" where
  "batch_angles w c product [] acc = Next acc"
| "batch_angles w c product (angle # rest) acc =
     (if stopRequested c then Returned (stop_run (fst acc), snd (snd acc))
      else batch_angles w c product rest (batch_unit w c product angle acc))"

text \<open>
  The loop over \<open>productsToProcess\<close>, with the index \<open>i\<close>, the cells, the local copy
  \<open>updatedProducts\<close> and the number of client calls.
\<close>

fun batch_products ::
  "world \<Rightarrow> app \<Rightarrow> Product list \<Rightarrow> nat \<Rightarrow> app \<times> Product list \<times> nat
     \<Rightarrow> (app \<times> nat, app \<times> Product list \<times> nat) flow" where
  "batch_products w c [] i acc = Next acc"
| "batch_products w c (product # rest) i acc =
     (case acc of (s, updatedProducts, k) \<Rightarrow>
        if stopRequested c then Returned (stop_run s, k)
        else
          (let productIndex = currentProductIndex c + i;
               s1 = addLog (ProcessingProduct (p_name product)) Info s
           in case batch_angles w c product (enabledAngles c) (s1, [], k) of
                Returned r \<Rightarrow> Returned r
              | Next (s2, generatedImages, k') \<Rightarrow>
                  (let updatedProducts' =
                         updatedProducts[productIndex :=
                           (updatedProducts ! productIndex)
                             \<lparr>p_generatedImages := generatedImages\<rparr>]
                   in batch_products w c rest (i + 1)
                        (s2\<lparr>products := updatedProducts'\<rparr>, updatedProducts', k'))))"

text \<open>The statements after the loop.\<close>

definition batch_finish :: "app \<Rightarrow> app \<Rightarrow> app" where
  "batch_finish c s =
     (let totalRequests = apiRequestCount c + length (productsToProcess c);
          s1 = addLog (TotalApiRequests totalRequests) Success s;
          s2 = addLog AllProductsCompleted Success s1
      in s2\<lparr>currentApiStatus := CompletedStatus, status := AppCompleted\<rparr>)"

text \<open>
  The handler of the render with cells \<open>c\<close>; it yields the cells after the run and the
  number of client calls made.
\<close>

definition handleGenerateBatch :: "world \<Rightarrow> app \<Rightarrow> app \<times> nat" where
  "handleGenerateBatch w c =
     (if length (products c) = 0 then (c, 0)
      else case batch_products w c (productsToProcess c) 0 (run_start c c, products c, 0) of
             Returned r \<Rightarrow> r
           | Next (s, updatedProducts, k) \<Rightarrow> (batch_finish c s, k))"

subsection \<open>\<open>handleGenerateAll\<close>\<close>

definition all_catch ::
  "Product \<Rightarrow> AngleConfig \<Rightarrow> app \<times> ImageFile list \<times> nat \<Rightarrow> app \<times> ImageFile list \<times> nat" where
  "all_catch product angle acc =
     (case acc of (s, generatedImages, k) \<Rightarrow>
        (s\<lparr>totalAnglesProcessed := totalAnglesProcessed s + 1\<rparr>,
         generatedImages @ [failed_image product angle], k))"

definition all_unit ::
  "world \<Rightarrow> app \<Rightarrow> Product \<Rightarrow> AngleConfig \<Rightarrow> app \<times> ImageFile list \<times> nat
     \<Rightarrow> app \<times> ImageFile list \<times> nat" where
  "all_unit w c product angle acc =
     (case acc of (s, generatedImages, k) \<Rightarrow>
        (let s1 = (if stop_click w k then request_stop s else s)
         in case call_client w c product angle k of
              Inl err \<Rightarrow> all_catch product angle (s1, generatedImages, k + 1)
            | Inr blobUrl \<Rightarrow>
                (case fetch w blobUrl of
                   Inl err \<Rightarrow> all_catch product angle (s1, generatedImages, k + 1)
                 | Inr blob \<Rightarrow>
                     (s1\<lparr>totalAnglesProcessed := totalAnglesProcessed s1 + 1\<rparr>,
                      generatedImages @ [completed_image product angle blobUrl blob],
                      k + 1))))"

definition stop_all :: "app \<Rightarrow> app" where
  "stop_all s = (addLog StoppedByUser Warning s)\<lparr>status := AppCompleted, stopRequested := False\<rparr>"

fun all_angles ::
  "world \<Rightarrow> app \<Rightarrow> Product \<Rightarrow> AngleConfig list \<Rightarrow> app \<times> ImageFile list \<times> nat
     \<Rightarrow> (app \<times> nat, app \<times> ImageFile list \<times> nat) flow" where
  "all_angles w c product [] acc = Next acc"
| "all_angles w c product (angle # rest) acc =
     (if stopRequested c then Returned (stop_all (fst acc), snd (snd acc))
      else all_angles w c product rest (all_unit w c product angle acc))"

fun all_products ::
  "world \<Rightarrow> app \<Rightarrow> Product list \<Rightarrow> nat \<Rightarrow> app \<times> Product list \<times> nat
     \<Rightarrow> (app \<times> nat, app \<times> Product list \<times> nat) flow" where
  "all_products w c [] productIndex acc = Next acc"
| "all_products w c (product # rest) productIndex acc =
     (case acc of (s, updatedProducts, k) \<Rightarrow>
        if stopRequested c then Returned (stop_all s, k)
        else
          (case all_angles w c product (enabledAngles c) (s, [], k) of
             Returned r \<Rightarrow> Returned r
           | Next (s2, generatedImages, k') \<Rightarrow>
               (let updatedProducts' =
                      updatedProducts[productIndex :=
                        (updatedProducts ! productIndex)
                          \<lparr>p_generatedImages := generatedImages\<rparr>]
                in all_products w c rest (productIndex + 1)
                     (s2\<lparr>products := updatedProducts'\<rparr>, updatedProducts', k'))))"

definition handleGenerateAll :: "world \<Rightarrow> app \<Rightarrow> app \<times> nat" where
  "handleGenerateAll w c =
     (if length (products c) = 0 then (c, 0)
      else
        (let s0 = c\<lparr>status := AppProcessing, error := [],
                    totalAnglesToProcess := length (products c) * length (enabledAngles c),
                    totalAnglesProcessed := 0\<rparr>
         in case all_products w c (products c) 0 (s0, products c, 0) of
              Returned r \<Rightarrow> r
            | Next (s, updatedProducts, k) \<Rightarrow> (s\<lparr>status := AppCompleted\<rparr>, k)))"

subsection \<open>The client behind the handlers\<close>

text \<open>
  App.tsx passes \<open>apiKey\<close> as the seventh argument, which is the signature of the client
  variant with the key parameter; \<open>envs k\<close> is the outside that the \<open>k\<close>-th call meets.
\<close>

definition client_2 ::
  "(nat \<Rightarrow> env) \<Rightarrow> nat \<Rightarrow> File list \<Rightarrow> string \<Rightarrow> string \<Rightarrow> string \<Rightarrow> string \<Rightarrow> nat \<Rightarrow> string
     \<Rightarrow> error + encodedImage" where
  "client_2 envs k referenceFiles pn pd prompt model width key =
     fst (generateProductAngle_2 (envs k) referenceFiles pn pd prompt model width key 0)"

subsection \<open>\<open>handleSelectFolder\<close>\<close>

text \<open>\<open>String.prototype.split\<close> with a separator of one character.\<close>

fun split :: "char \<Rightarrow> string \<Rightarrow> string list" where
  "split sep [] = [] # []"
| "split sep (ch # rest) =
     (if ch = sep then [] # split sep rest
      else (case split sep rest of
              [] \<Rightarrow> [ch] # []
            | piece # pieces \<Rightarrow> (ch # piece) # pieces))"

text \<open>
  The two levels of \<open>Map\<close>, as association lists in insertion order: a key that is
  already present keeps its place, a new key goes to the end.
\<close>

fun push_file :: "string \<Rightarrow> File \<Rightarrow> (string \<times> File list) list \<Rightarrow> (string \<times> File list) list" where
  "push_file colorName file [] = [(colorName, [file])]"
| "push_file colorName file ((key, files) # productMap) =
     (if key = colorName then (key, files @ [file]) # productMap
      else (key, files) # push_file colorName file productMap)"

fun add_to_folder ::
  "string \<Rightarrow> string \<Rightarrow> File \<Rightarrow> (string \<times> (string \<times> File list) list) list
     \<Rightarrow> (string \<times> (string \<times> File list) list) list" where
  "add_to_folder productName colorName file [] = [(productName, [(colorName, [file])])]"
| "add_to_folder productName colorName file ((key, productMap) # folderMap) =
     (if key = productName then (key, push_file colorName file productMap) # folderMap
      else (key, productMap) # add_to_folder productName colorName file folderMap)"

text \<open>The body of the loop over the picked files.\<close>

definition organize_file ::
  "File \<Rightarrow> (string \<times> (string \<times> File list) list) list
     \<Rightarrow> (string \<times> (string \<times> File list) list) list" where
  "organize_file file folderMap =
     (if \<not> prefix ''image/'' (file_type file) then folderMap
      else
        (let pathParts = split CHR ''/'' (webkitRelativePath file)
         in if length pathParts < 2 then folderMap
            else
              (let productName = pathParts ! 1;
                   hasSubfolder = length pathParts > 3
               in if hasSubfolder then add_to_folder productName (pathParts ! 2) file folderMap
                  else add_to_folder productName ''default'' file folderMap)))"

definition organize :: "File list \<Rightarrow> (string \<times> (string \<times> File list) list) list" where
  "organize files = foldl (\<lambda>folderMap file. organize_file file folderMap) [] files"

definition image_of_file :: "File \<Rightarrow> ImageFile" where
  "image_of_file file =
     \<lparr>img_file = file, img_preview = ObjectURL (webkitRelativePath file), img_status = Pending,
      img_name = file_name file, img_path = webkitRelativePath file, img_angle = None\<rparr>"

text \<open>The two nested loops over the entries of the maps.\<close>

definition build_products :: "(string \<times> (string \<times> File list) list) list \<Rightarrow> Product list" where
  "build_products folderMap =
     concat (map (\<lambda>(productName, colorMap).
       concat (map (\<lambda>(colorName, files).
         if length (map image_of_file files) > 0 then
           [\<lparr>p_name = (if colorName = ''default'' then productName
                       else productName @ '' - '' @ colorName),
             p_images = map image_of_file files, p_generatedImages = []\<rparr>]
         else []) colorMap)) folderMap)"

text \<open>\<open>/^\d/.test(name)\<close>.\<close>

definition startsWithNumber :: "string \<Rightarrow> bool" where
  "startsWithNumber name = (case name of [] \<Rightarrow> False | ch # rest \<Rightarrow> ch \<in> set ''0123456789'')"

text \<open>
  The comparator handed to \<open>sort\<close>. \<open>localeCompare\<close> stands for
  \<open>a.localeCompare(b, undefined, {numeric: true, sensitivity: 'base'})\<close>, which the
  browser supplies.
\<close>

definition compare_products :: "(string \<Rightarrow> string \<Rightarrow> int) \<Rightarrow> Product \<Rightarrow> Product \<Rightarrow> int" where
  "compare_products localeCompare a b =
     (let aStartsWithNumber = startsWithNumber (p_name a);
          bStartsWithNumber = startsWithNumber (p_name b)
      in if aStartsWithNumber \<and> \<not> bStartsWithNumber then - 1
         else if \<not> aStartsWithNumber \<and> bStartsWithNumber then 1
         else localeCompare (p_name a) (p_name b))"

text \<open>
  \<open>Array.prototype.sort\<close> with a comparator. For a consistent comparator the language
  fixes the result: the stable sort, which insertion from the right computes.
\<close>

fun insert_with :: "('a \<Rightarrow> 'a \<Rightarrow> int) \<Rightarrow> 'a \<Rightarrow> 'a list \<Rightarrow> 'a list" where
  "insert_with cmp x [] = [x]"
| "insert_with cmp x (y # ys) =
     (if cmp x y \<le> 0 then x # y # ys else y # insert_with cmp x ys)"

definition sort_with :: "('a \<Rightarrow> 'a \<Rightarrow> int) \<Rightarrow> 'a list \<Rightarrow> 'a list" where
  "sort_with cmp xs = foldr (insert_with cmp) xs []"

text \<open>The \<open>onchange\<close> handler of the directory input, on the list of picked files.\<close>

definition handleSelectFolder :: "(string \<Rightarrow> string \<Rightarrow> int) \<Rightarrow> File list \<Rightarrow> app \<Rightarrow> app" where
  "handleSelectFolder localeCompare files s =
     (if length files = 0 then s
      else
        (let productsList =
               sort_with (compare_products localeCompare) (build_products (organize files))
         in addLog (LoadedProducts (length productsList)) Success
              (s\<lparr>products := productsList, currentProductIndex := 0, status := AppIdle,
                 error := []\<rparr>)))"

text \<open>
  A comparator is consistent when the order it induces is total and transitive.
\<close>

definition consistent :: "('a \<Rightarrow> 'a \<Rightarrow> int) \<Rightarrow> bool" where
  "consistent cmp =
     ((\<forall>a b. cmp a b \<le> 0 \<or> cmp b a \<le> 0) \<and>
      (\<forall>a b c. cmp a b \<le> 0 \<and> cmp b c \<le> 0 \<longrightarrow> cmp a c \<le> 0))"

text \<open>A stand-in for the browser's comparison in the examples: shorter names first.\<close>

definition by_length :: "string \<Rightarrow> string \<Rightarrow> int" where
  "by_length a b = int (length a) - int (length b)"

definition picked :: "string \<Rightarrow> string \<Rightarrow> File" where
  "picked path type =
     \<lparr>file_name = last (split CHR ''/'' path), file_type = type, webkitRelativePath = path,
      file_data = Some ''QUJD''\<rparr>"

text \<open>
  Two picked directories: one with three product folders, and one with a product folder,
  an image next to it in the root, and a colour folder called "default".
\<close>

definition shelf :: "File list" where
  "shelf =
     [picked ''root/Shoes/1.jpg'' ''image/jpeg'', picked ''root/2Hats/1.jpg'' ''image/jpeg'',
      picked ''root/10Bags/1.jpg'' ''image/jpeg'', picked ''root/Shoes/notes.txt'' ''text/plain'']"

definition stray :: "File list" where
  "stray =
     [picked ''root/cover.png'' ''image/png'', picked ''root/Shoes/1.jpg'' ''image/jpeg'',
      picked ''root/Bags/default/1.jpg'' ''image/jpeg'']"

subsection \<open>A small catalog for the examples\<close>

definition shoe_photo :: ImageFile where
  "shoe_photo =
     \<lparr>img_file = \<lparr>file_name = ''1.jpg'', file_type = ''image/jpeg'',
                   webkitRelativePath = ''root/Red/1.jpg'', file_data = Some ''QUJD''\<rparr>,
      img_preview = ObjectURL ''root/Red/1.jpg'', img_status = Pending,
      img_name = ''1.jpg'', img_path = ''root/Red/1.jpg'', img_angle = None\<rparr>"

definition red :: Product where
  "red = \<lparr>p_name = ''Red'', p_images = [shoe_photo], p_generatedImages = []\<rparr>"

definition front_view :: AngleConfig where
  "front_view = \<lparr>a_name = ''Front'', a_prompt = ''Front view of the product'', a_enabled = True\<rparr>"

definition back_view :: AngleConfig where
  "back_view = \<lparr>a_name = ''Back'', a_prompt = ''Back view of the product'', a_enabled = True\<rparr>"

text \<open>The cells of a render with one product, two enabled angles and no stop request.\<close>

definition c_red :: app where
  "c_red =
     \<lparr>products = [red], currentProductIndex = 0, status = AppIdle, error = [],
      apiKey = ''key'', productDescription = ''High-quality professional product'',
      angles = [front_view, back_view], modelName = ''gemini-2.5-flash-image'', targetWidth = 800,
      batchSize = 1, totalAnglesProcessed = 0, totalAnglesToProcess = 0,
      apiRequestCount = 0, stopRequested = False, currentApiStatus = NoApiStatus,
      activityLog = []\<rparr>"

text \<open>
  A world in which every call returns an image and every fetch succeeds, and the same
  world with STOP pressed while the first call is in flight.
\<close>

definition w_ok :: world where
  "w_ok = \<lparr>client = (\<lambda>k rf pn pd prompt model width key.
                        Inr (CanvasPng width width ''data:image/png;base64,QUJD'')),
           fetch = (\<lambda>url. Inr ''PNG''), stop_click = (\<lambda>k. False)\<rparr>"

definition w_stop :: world where
  "w_stop = w_ok\<lparr>stop_click := (\<lambda>k. k = 0)\<rparr>"

text \<open>A world whose every call fails with the given message, and no status.\<close>

definition w_fail :: "string \<Rightarrow> world" where
  "w_fail msg = w_ok\<lparr>client := (\<lambda>k rf pn pd prompt model width key. Inl (Error None msg))\<rparr>"

text \<open>A world whose calls go to the client with the key parameter, with no key anywhere.\<close>

definition w_nokey :: world where
  "w_nokey = w_ok\<lparr>client := client_2 (\<lambda>k. e_nokey)\<rparr>"

text \<open>The cells of a render in which a stop request is still pending, and of one without key.\<close>

definition c_stale :: app where
  "c_stale = c_red\<lparr>stopRequested := True\<rparr>"

definition c_nokey :: app where
  "c_nokey = c_red\<lparr>apiKey := []\<rparr>"

subsection \<open>Vocabulary for the properties of a run\<close>

text \<open>
  The entry that the unit with client call number \<open>k\<close> leaves in \<open>generatedImages\<close>, and
  the entries of the consecutive units of one product, the first with call number \<open>k\<close>.
\<close>

definition unit_result :: "world \<Rightarrow> app \<Rightarrow> Product \<Rightarrow> AngleConfig \<Rightarrow> nat \<Rightarrow> ImageFile" where
  "unit_result w c product angle k =
     (case call_client w c product angle k of
        Inl err \<Rightarrow> failed_image product angle
      | Inr blobUrl \<Rightarrow>
          (case fetch w blobUrl of
             Inl err \<Rightarrow> failed_image product angle
           | Inr blob \<Rightarrow> completed_image product angle blobUrl blob))"

fun unit_results :: "world \<Rightarrow> app \<Rightarrow> Product \<Rightarrow> AngleConfig list \<Rightarrow> nat \<Rightarrow> ImageFile list" where
  "unit_results w c product [] k = []"
| "unit_results w c product (angle # rest) k =
     unit_result w c product angle k # unit_results w c product rest (Suc k)"

text \<open>Every URL that a client call returns can be fetched.\<close>

definition fetch_ok :: "world \<Rightarrow> bool" where
  "fetch_ok w = (\<forall>blobUrl. \<exists>blob. fetch w blobUrl = Inr blob)"

text \<open>
  What the loop over the products leaves in \<open>updatedProducts\<close> when no unit is skipped:
  \<open>n\<close> is the index of the first product of the list, \<open>k\<close> the call number of its first
  unit.
\<close>

fun expected_products ::
  "world \<Rightarrow> app \<Rightarrow> Product list \<Rightarrow> nat \<Rightarrow> Product list \<Rightarrow> nat \<Rightarrow> Product list" where
  "expected_products w c [] n updatedProducts k = updatedProducts"
| "expected_products w c (product # rest) n updatedProducts k =
     expected_products w c rest (Suc n)
       (updatedProducts[n :=
          (updatedProducts ! n)
            \<lparr>p_generatedImages := unit_results w c product (enabledAngles c) k\<rparr>])
       (k + length (enabledAngles c))"

section \<open>Properties of the generation client\<close>

subsection \<open>Retry\<close>

lemma imagen_step:
  "env_key e \<noteq> [] \<Longrightarrow> generateImages e k = Inl err \<Longrightarrow> retryable err \<Longrightarrow> k < 3 \<Longrightarrow>
   generateWithImagen e pn pd a m tw k =
     (case generateWithImagen e pn pd a m tw (Suc k) of
        (r, t) \<Rightarrow> (r, Call GenerateImages k # Sleep (delay k) # t))"
  by (subst generateWithImagen.simps) simp

lemma imagen_stop:
  "env_key e \<noteq> [] \<Longrightarrow> generateImages e k = Inl err \<Longrightarrow> \<not> (k < 3 \<and> retryable err) \<Longrightarrow>
   generateWithImagen e pn pd a m tw k = (Inl err, [Call GenerateImages k])"
  by (subst generateWithImagen.simps) auto

lemma angle_step:
  assumes "env_key e \<noteq> []" "readable rf" "thrown e m k = Some err" "retryable err" "k < 3"
  shows "generateProductAngle e rf pn pd a m tw k =
     (case generateProductAngle e rf pn pd a m tw (Suc k) of
        (r, t) \<Rightarrow> (r, Call (api_of m) k # Sleep (delay k) # t))"
proof (cases "isImagenModel m")
  case True
  with assms have "generateImages e k = Inl err"
    by (auto simp: thrown_def split: sum.splits)
  from imagen_step [OF assms(1) this assms(4,5)] True assms(1) show ?thesis
    by (simp add: generateProductAngle.simps [of e rf pn pd a m tw] api_of_def)
next
  case False
  with assms have "generateContent e k = Inl err"
    by (auto simp: thrown_def split: sum.splits)
  with False assms show ?thesis
    by (subst generateProductAngle.simps) (simp add: api_of_def)
qed

lemma angle_stop:
  assumes "env_key e \<noteq> []" "readable rf" "thrown e m k = Some err" "\<not> (k < 3 \<and> retryable err)"
  shows "generateProductAngle e rf pn pd a m tw k = (Inl err, [Call (api_of m) k])"
proof (cases "isImagenModel m")
  case True
  with assms have "generateImages e k = Inl err"
    by (auto simp: thrown_def split: sum.splits)
  from imagen_stop [OF assms(1) this assms(4)] True assms(1) show ?thesis
    by (simp add: generateProductAngle.simps [of e rf pn pd a m tw] api_of_def)
next
  case False
  with assms have "generateContent e k = Inl err"
    by (auto simp: thrown_def split: sum.splits)
  with False assms show ?thesis
    by (subst generateProductAngle.simps) (auto simp add: api_of_def)
qed

lemma angle_exhaust:
  assumes k: "env_key e \<noteq> []" and r: "readable rf"
    and t: "\<And>k. thrown e m k = Some (errs k) \<and> retryable (errs k)"
  shows "generateProductAngle e rf pn pd a m tw 0 = (Inl (errs 3), retry_trace (api_of m))"
proof -
  have 3: "generateProductAngle e rf pn pd a m tw 3 = (Inl (errs 3), [Call (api_of m) 3])"
    using angle_stop [OF k r, of m 3 "errs 3"] t by simp
  have 2: "generateProductAngle e rf pn pd a m tw 2 =
      (Inl (errs 3), [Call (api_of m) 2, Sleep 4000, Call (api_of m) 3])"
    using angle_step [OF k r, of m 2 "errs 2" pn pd a tw] t 3
    by (simp add: delay_def numeral_3_eq_3)
  have 1: "generateProductAngle e rf pn pd a m tw 1 =
      (Inl (errs 3), [Call (api_of m) 1, Sleep 2000, Call (api_of m) 2, Sleep 4000, Call (api_of m) 3])"
    using angle_step [OF k r, of m 1 "errs 1" pn pd a tw] t 2
    by (simp add: delay_def numeral_2_eq_2)
  show ?thesis
    using angle_step [OF k r, of m 0 "errs 0" pn pd a tw] t 1
    by (simp add: delay_def retry_trace_def)
qed

lemma key_of_idem: "key_of e (key_of e key) = key_of e key"
  by (simp add: key_of_def)

lemma imagen_2_step:
  "key \<noteq> [] \<Longrightarrow> generateImages e k = Inl err \<Longrightarrow> retryable err \<Longrightarrow> k < 3 \<Longrightarrow>
   generateWithImagen_2 e pn pd a m tw key k =
     (case generateWithImagen_2 e pn pd a m tw key (Suc k) of
        (r, t) \<Rightarrow> (r, Call GenerateImages k # Sleep (delay k) # t))"
  by (subst generateWithImagen_2.simps) simp

lemma imagen_2_stop:
  "key \<noteq> [] \<Longrightarrow> generateImages e k = Inl err \<Longrightarrow> \<not> (k < 3 \<and> retryable err) \<Longrightarrow>
   generateWithImagen_2 e pn pd a m tw key k = (Inl err, [Call GenerateImages k])"
  by (subst generateWithImagen_2.simps) auto

lemma angle_2_key:
  "generateProductAngle_2 e rf pn pd a m tw (key_of e key) k =
   generateProductAngle_2 e rf pn pd a m tw key k"
  by (subst generateProductAngle_2.simps, subst (2) generateProductAngle_2.simps)
     (simp only: key_of_idem)

lemma angle_2_step:
  assumes "key_of e key \<noteq> []" "readable rf" "thrown e m k = Some err" "retryable err" "k < 3"
  shows "generateProductAngle_2 e rf pn pd a m tw key k =
     (case generateProductAngle_2 e rf pn pd a m tw key (Suc k) of
        (r, t) \<Rightarrow> (r, Call (api_of m) k # Sleep (delay k) # t))"
proof (cases "isImagenModel m")
  case True
  with assms have g: "generateImages e k = Inl err"
    by (auto simp: thrown_def split: sum.splits)
  have "generateProductAngle_2 e rf pn pd a m tw key n =
        generateWithImagen_2 e pn pd a m tw (key_of e key) n" for n
    using True assms(1) by (subst generateProductAngle_2.simps) simp
  with imagen_2_step [OF assms(1) g assms(4,5)] True show ?thesis
    by (simp add: api_of_def)
next
  case False
  with assms have "generateContent e k = Inl err"
    by (auto simp: thrown_def split: sum.splits)
  with False assms show ?thesis
    by (simp add: generateProductAngle_2.simps [of e rf pn pd a m tw key k] api_of_def
        angle_2_key)
qed

lemma angle_2_stop:
  assumes "key_of e key \<noteq> []" "readable rf" "thrown e m k = Some err"
    "\<not> (k < 3 \<and> retryable err)"
  shows "generateProductAngle_2 e rf pn pd a m tw key k = (Inl err, [Call (api_of m) k])"
proof (cases "isImagenModel m")
  case True
  with assms have g: "generateImages e k = Inl err"
    by (auto simp: thrown_def split: sum.splits)
  from imagen_2_stop [OF assms(1) g assms(4)] True assms(1) show ?thesis
    by (subst generateProductAngle_2.simps) (simp add: api_of_def)
next
  case False
  with assms have "generateContent e k = Inl err"
    by (auto simp: thrown_def split: sum.splits)
  with False assms show ?thesis
    by (subst generateProductAngle_2.simps) (auto simp add: api_of_def)
qed

lemma angle_2_exhaust:
  assumes k: "key_of e key \<noteq> []" and r: "readable rf"
    and t: "\<And>k. thrown e m k = Some (errs k) \<and> retryable (errs k)"
  shows "generateProductAngle_2 e rf pn pd a m tw key 0 =
    (Inl (errs 3), retry_trace (api_of m))"
proof -
  have 3: "generateProductAngle_2 e rf pn pd a m tw key 3 = (Inl (errs 3), [Call (api_of m) 3])"
    using angle_2_stop [OF k r, of m 3 "errs 3"] t by simp
  have 2: "generateProductAngle_2 e rf pn pd a m tw key 2 =
      (Inl (errs 3), [Call (api_of m) 2, Sleep 4000, Call (api_of m) 3])"
    using angle_2_step [OF k r, of m 2 "errs 2" pn pd a tw] t 3
    by (simp add: delay_def numeral_3_eq_3)
  have 1: "generateProductAngle_2 e rf pn pd a m tw key 1 =
      (Inl (errs 3), [Call (api_of m) 1, Sleep 2000, Call (api_of m) 2, Sleep 4000, Call (api_of m) 3])"
    using angle_2_step [OF k r, of m 1 "errs 1" pn pd a tw] t 2
    by (simp add: delay_def numeral_2_eq_2)
  show ?thesis
    using angle_2_step [OF k r, of m 0 "errs 0" pn pd a tw] t 1
    by (simp add: delay_def retry_trace_def)
qed

lemma status_retryable:
  "500 \<le> s \<and> s < 600 \<or> s = 429 \<Longrightarrow> retryable (Error (Some s) msg)"
  by (auto simp: retryable_def)

text \<open>
  Claim C3. A single-view call whose remote request fails at every attempt with a status
  in the 500 range or with 429 makes exactly four requests, sleeping 1000, 2000 and 4000
  milliseconds before the second, third and fourth, and then surfaces the error of the
  fourth; a call whose first request fails with an error that the retry test rejects
  surfaces it after that one request, without sleeping. Both hold for the client of
  services/gemini.ts and for its variant with the key parameter, on the Gemini and on the
  Imagen path.
\<close>

theorem retry_policy:
  assumes "readable referenceFiles"
  shows
    "(env_key e \<noteq> [] \<and>
      (\<forall>k. \<exists>s msg. thrown e model k = Some (Error (Some s) msg) \<and>
                    (500 \<le> s \<and> s < 600 \<or> s = 429)) \<longrightarrow>
       (\<exists>err3. thrown e model 3 = Some err3 \<and>
          generateProductAngle e referenceFiles productName description angle model
              width 0 =
            (Inl err3,
             [Call (api_of model) 0, Sleep 1000, Call (api_of model) 1, Sleep 2000,
              Call (api_of model) 2, Sleep 4000, Call (api_of model) 3]))) \<and>
     (env_key e \<noteq> [] \<and> thrown e model 0 = Some err \<and> \<not> retryable err \<longrightarrow>
        generateProductAngle e referenceFiles productName description angle model
            width 0 =
          (Inl err, [Call (api_of model) 0])) \<and>
     (key_of e key \<noteq> [] \<and>
      (\<forall>k. \<exists>s msg. thrown e model k = Some (Error (Some s) msg) \<and>
                    (500 \<le> s \<and> s < 600 \<or> s = 429)) \<longrightarrow>
       (\<exists>err3. thrown e model 3 = Some err3 \<and>
          generateProductAngle_2 e referenceFiles productName description angle model
              width key 0 =
            (Inl err3,
             [Call (api_of model) 0, Sleep 1000, Call (api_of model) 1, Sleep 2000,
              Call (api_of model) 2, Sleep 4000, Call (api_of model) 3]))) \<and>
     (key_of e key \<noteq> [] \<and> thrown e model 0 = Some err \<and> \<not> retryable err \<longrightarrow>
        generateProductAngle_2 e referenceFiles productName description angle model
            width key 0 =
          (Inl err, [Call (api_of model) 0]))"
proof -
  have always: "\<exists>errs. \<forall>k. thrown e model k = Some (errs k) \<and> retryable (errs k)"
    if "\<forall>k. \<exists>s msg. thrown e model k = Some (Error (Some s) msg) \<and>
                    (500 \<le> s \<and> s < 600 \<or> s = 429)"
  proof -
    from that have "\<forall>k. \<exists>err. thrown e model k = Some err \<and> retryable err"
      using status_retryable by blast
    then show ?thesis by (rule choice)
  qed
  show ?thesis
  proof (intro conjI impI)
    assume h: "env_key e \<noteq> [] \<and>
      (\<forall>k. \<exists>s msg. thrown e model k = Some (Error (Some s) msg) \<and>
                    (500 \<le> s \<and> s < 600 \<or> s = 429))"
    then obtain errs where "\<forall>k. thrown e model k = Some (errs k) \<and> retryable (errs k)"
      using always by blast
    with h assms angle_exhaust [of e referenceFiles model errs]
    show "\<exists>err3. thrown e model 3 = Some err3 \<and>
          generateProductAngle e referenceFiles productName description angle model
              width 0 =
            (Inl err3,
             [Call (api_of model) 0, Sleep 1000, Call (api_of model) 1, Sleep 2000,
              Call (api_of model) 2, Sleep 4000, Call (api_of model) 3])"
      by (simp add: retry_trace_def)
  next
    assume "env_key e \<noteq> [] \<and> thrown e model 0 = Some err \<and> \<not> retryable err"
    with assms angle_stop [of e referenceFiles model 0 err]
    show "generateProductAngle e referenceFiles productName description angle model
            width 0 = (Inl err, [Call (api_of model) 0])"
      by simp
  next
    assume h: "key_of e key \<noteq> [] \<and>
      (\<forall>k. \<exists>s msg. thrown e model k = Some (Error (Some s) msg) \<and>
                    (500 \<le> s \<and> s < 600 \<or> s = 429))"
    then obtain errs where "\<forall>k. thrown e model k = Some (errs k) \<and> retryable (errs k)"
      using always by blast
    with h assms angle_2_exhaust [of e key referenceFiles model errs]
    show "\<exists>err3. thrown e model 3 = Some err3 \<and>
          generateProductAngle_2 e referenceFiles productName description angle model
              width key 0 =
            (Inl err3,
             [Call (api_of model) 0, Sleep 1000, Call (api_of model) 1, Sleep 2000,
              Call (api_of model) 2, Sleep 4000, Call (api_of model) 3])"
      by (simp add: retry_trace_def)
  next
    assume "key_of e key \<noteq> [] \<and> thrown e model 0 = Some err \<and> \<not> retryable err"
    with assms angle_2_stop [of e key referenceFiles model 0 err]
    show "generateProductAngle_2 e referenceFiles productName description angle model
            width key 0 = (Inl err, [Call (api_of model) 0])"
      by simp
  qed
qed

theorem retry_policy_witness:
  "generateProductAngle e500 [] ''Shoe'' ''A shoe'' ''Front view'' ''gemini-2.5-flash-image'' 800 0 =
     (Inl (Error (Some 500) ''Internal error''),
      [Call GenerateContent 0, Sleep 1000, Call GenerateContent 1, Sleep 2000,
       Call GenerateContent 2, Sleep 4000, Call GenerateContent 3]) \<and>
   generateProductAngle_2 e500 [] ''Shoe'' ''A shoe'' ''Front view'' ''gemini-2.5-flash-image'' 800
       ''user key'' 0 =
     (Inl (Error (Some 500) ''Internal error''),
      [Call GenerateContent 0, Sleep 1000, Call GenerateContent 1, Sleep 2000,
       Call GenerateContent 2, Sleep 4000, Call GenerateContent 3]) \<and>
   generateProductAngle e400 [] ''Shoe'' ''A shoe'' ''Front view'' ''gemini-2.5-flash-image'' 800 0 =
     (Inl (Error (Some 400) ''Bad request''), [Call GenerateContent 0]) \<and>
   generateProductAngle_2 e400 [] ''Shoe'' ''A shoe'' ''Front view'' ''gemini-2.5-flash-image'' 800
       ''user key'' 0 =
     (Inl (Error (Some 400) ''Bad request''), [Call GenerateContent 0])"
proof -
  have r: "readable []" by (simp add: readable_def)
  note a = retry_policy [OF r, where e = e500 and model = "''gemini-2.5-flash-image''"
      and productName = "''Shoe''" and description = "''A shoe''"
      and angle = "''Front view''" and width = 800 and key = "''user key''"]
  note b = retry_policy [OF r, where e = e400 and model = "''gemini-2.5-flash-image''"
      and err = "Error (Some 400) ''Bad request''"
      and productName = "''Shoe''" and description = "''A shoe''"
      and angle = "''Front view''" and width = 800 and key = "''user key''"]
  show ?thesis
    using a b
    by (simp add: e500_def e400_def thrown_def api_of_def isImagenModel_def key_of_def
        retryable_def)
qed

subsection \<open>Batched calls\<close>

lemma pad_eq:
  "resultImages \<noteq> [] \<Longrightarrow>
   pad resultImages n = resultImages @ replicate (n - length resultImages) (last resultImages)"
proof (induction resultImages n rule: pad.induct)
  case (1 resultImages n)
  show ?case
  proof (cases "length resultImages < n")
    case True
    then have "n - length resultImages = Suc (n - Suc (length resultImages))" by simp
    with 1 True show ?thesis
      by (subst pad.simps) (simp add: replicate_app_Cons_same)
  next
    case False
    then show ?thesis by (subst pad.simps) simp
  qed
qed

lemma fit_empty: "fit_to_angles [] n = Inl no_image_data"
  by (simp add: fit_to_angles_def)

lemma fit_short:
  "resultImages \<noteq> [] \<Longrightarrow> length resultImages < n \<Longrightarrow>
   fit_to_angles resultImages n =
     Inr (resultImages @ replicate (n - length resultImages) (last resultImages))"
  by (simp add: fit_to_angles_def pad_eq)

lemma fit_long:
  "resultImages \<noteq> [] \<Longrightarrow> n \<le> length resultImages \<Longrightarrow>
   fit_to_angles resultImages n = Inr (take n resultImages)"
  by (simp add: fit_to_angles_def pad_eq)

lemma fit_length: "fit_to_angles resultImages n = Inr r \<Longrightarrow> length r = n"
  by (cases "resultImages = []") (auto simp: fit_to_angles_def pad_eq)

lemma batch_length:
  "fst (generateAllProductAngles e rf pn pd views m tw k) = Inr r \<Longrightarrow> length r = length views"
proof (induction e rf pn pd views m tw k rule: generateAllProductAngles.induct)
  case (1 e rf pn pd views m tw k)
  from "1.prems" show ?case
    apply (subst (asm) generateAllProductAngles.simps)
    apply (auto split: if_splits sum.splits prod.splits dest: fit_length "1.IH")
    done
qed

lemma batch_2_length:
  "fst (generateAllProductAngles_2 e rf pn pd views m tw key k) = Inr r \<Longrightarrow>
   length r = length views"
proof (induction e rf pn pd views m tw key k rule: generateAllProductAngles_2.induct)
  case (1 e rf pn pd views m tw key k)
  from "1.prems" show ?case
    apply (subst (asm) generateAllProductAngles_2.simps)
    apply (auto split: if_splits sum.splits prod.splits dest: fit_length "1.IH")
    done
qed

lemma batch_reply:
  "env_key e \<noteq> [] \<Longrightarrow> readable rf \<Longrightarrow> generateContent e k = Inr parts \<Longrightarrow>
   generateAllProductAngles e rf pn pd views m tw k =
     (fit_to_angles (collect_images parts) (length views), [Call GenerateContent k])"
  by (subst generateAllProductAngles.simps) simp

lemma batch_2_reply:
  "key_of e key \<noteq> [] \<Longrightarrow> readable rf \<Longrightarrow> generateContent e k = Inr parts \<Longrightarrow>
   generateAllProductAngles_2 e rf pn pd views m tw key k =
     (case collect_resized e tw parts of
        Inl err \<Rightarrow> Inl err
      | Inr resultImages \<Rightarrow> fit_to_angles resultImages (length views),
      [Call GenerateContent k])"
  by (subst generateAllProductAngles_2.simps) simp

lemma extract_resized_length:
  "extract_resized e tw ps = Inr resized \<Longrightarrow> length resized = length (extract_images ps)"
  by (induction ps arbitrary: resized rule: extract_images.induct)
     (auto split: sum.splits)

lemma collect_resized_length:
  "collect_resized e tw parts = Inr resized \<Longrightarrow> length resized = length (collect_images parts)"
  by (auto simp: collect_resized_def collect_images_def extract_resized_length
      split: option.splits)

text \<open>
  Claim C4. When the remote answers a batched call for \<open>length views\<close> views, the call
  fails with the empty-result error if the answer holds no image, returns the images
  followed by copies of the last one if it holds fewer than requested, and returns the
  first \<open>length views\<close> of them if it holds more; and whenever a batched call returns a
  list at all, after whatever retries, that list has exactly \<open>length views\<close> elements.
  In the variant with the key parameter the images are the resized ones, provided every
  received image could be resized.
\<close>

theorem batched_result_count:
  "(env_key e \<noteq> [] \<and> readable rf \<and> generateContent e k = Inr parts \<longrightarrow>
      (collect_images parts = [] \<longrightarrow>
         fst (generateAllProductAngles e rf pn pd views m tw k) = Inl no_image_data) \<and>
      (collect_images parts \<noteq> [] \<and> length (collect_images parts) < length views \<longrightarrow>
         fst (generateAllProductAngles e rf pn pd views m tw k) =
           Inr (collect_images parts @
                replicate (length views - length (collect_images parts))
                  (last (collect_images parts)))) \<and>
      (length views < length (collect_images parts) \<longrightarrow>
         fst (generateAllProductAngles e rf pn pd views m tw k) =
           Inr (take (length views) (collect_images parts)))) \<and>
   (\<forall>r. fst (generateAllProductAngles e rf pn pd views m tw k) = Inr r \<longrightarrow>
        length r = length views) \<and>
   (key_of e key \<noteq> [] \<and> readable rf \<and> generateContent e k = Inr parts \<and>
    collect_resized e tw parts = Inr resized \<longrightarrow>
      (collect_images parts = [] \<longrightarrow>
         fst (generateAllProductAngles_2 e rf pn pd views m tw key k) = Inl no_image_data) \<and>
      (collect_images parts \<noteq> [] \<and> length (collect_images parts) < length views \<longrightarrow>
         fst (generateAllProductAngles_2 e rf pn pd views m tw key k) =
           Inr (resized @
                replicate (length views - length (collect_images parts)) (last resized))) \<and>
      (length views < length (collect_images parts) \<longrightarrow>
         fst (generateAllProductAngles_2 e rf pn pd views m tw key k) =
           Inr (take (length views) resized))) \<and>
   (\<forall>r. fst (generateAllProductAngles_2 e rf pn pd views m tw key k) = Inr r \<longrightarrow>
        length r = length views)"
proof (intro conjI impI allI)
  assume "env_key e \<noteq> [] \<and> readable rf \<and> generateContent e k = Inr parts"
    and "collect_images parts = []"
  then show "fst (generateAllProductAngles e rf pn pd views m tw k) = Inl no_image_data"
    by (simp add: batch_reply fit_empty)
next
  assume "env_key e \<noteq> [] \<and> readable rf \<and> generateContent e k = Inr parts"
    and "collect_images parts \<noteq> [] \<and> length (collect_images parts) < length views"
  then show "fst (generateAllProductAngles e rf pn pd views m tw k) =
      Inr (collect_images parts @
           replicate (length views - length (collect_images parts))
             (last (collect_images parts)))"
    by (simp add: batch_reply fit_short)
next
  assume "env_key e \<noteq> [] \<and> readable rf \<and> generateContent e k = Inr parts"
    and "length views < length (collect_images parts)"
  then show "fst (generateAllProductAngles e rf pn pd views m tw k) =
      Inr (take (length views) (collect_images parts))"
    by (cases "collect_images parts = []") (simp_all add: batch_reply fit_long)
next
  fix r
  assume "fst (generateAllProductAngles e rf pn pd views m tw k) = Inr r"
  then show "length r = length views" by (rule batch_length)
next
  assume h: "key_of e key \<noteq> [] \<and> readable rf \<and> generateContent e k = Inr parts \<and>
      collect_resized e tw parts = Inr resized"
    and "collect_images parts = []"
  with collect_resized_length [of e tw parts resized]
  show "fst (generateAllProductAngles_2 e rf pn pd views m tw key k) = Inl no_image_data"
    by (simp add: batch_2_reply fit_empty)
next
  assume h: "key_of e key \<noteq> [] \<and> readable rf \<and> generateContent e k = Inr parts \<and>
      collect_resized e tw parts = Inr resized"
    and "collect_images parts \<noteq> [] \<and> length (collect_images parts) < length views"
  with collect_resized_length [of e tw parts resized]
  show "fst (generateAllProductAngles_2 e rf pn pd views m tw key k) =
      Inr (resized @ replicate (length views - length (collect_images parts)) (last resized))"
    by (cases "resized = []") (auto simp: batch_2_reply fit_short)
next
  assume h: "key_of e key \<noteq> [] \<and> readable rf \<and> generateContent e k = Inr parts \<and>
      collect_resized e tw parts = Inr resized"
    and "length views < length (collect_images parts)"
  with collect_resized_length [of e tw parts resized]
  show "fst (generateAllProductAngles_2 e rf pn pd views m tw key k) =
      Inr (take (length views) resized)"
    by (cases "resized = []") (simp_all add: batch_2_reply fit_long)
next
  fix r
  assume "fst (generateAllProductAngles_2 e rf pn pd views m tw key k) = Inr r"
  then show "length r = length views" by (rule batch_2_length)
qed

theorem batched_result_count_witness:
  "fst (generateAllProductAngles (e_parts [TextPart ''none'']) [] ''Shoe'' ''A shoe''
          [(''Front'', ''f''), (''Back'', ''b'')] ''gemini-2.5-flash-image'' 800 0) =
     Inl no_image_data \<and>
   fst (generateAllProductAngles (e_parts [InlinePart ''QUJD'', TextPart ''one'']) [] ''Shoe''
          ''A shoe'' [(''Front'', ''f''), (''Back'', ''b''), (''Side'', ''s'')]
          ''gemini-2.5-flash-image'' 800 0) =
     Inr [DataUrl ''data:image/png;base64,QUJD'', DataUrl ''data:image/png;base64,QUJD'',
          DataUrl ''data:image/png;base64,QUJD''] \<and>
   fst (generateAllProductAngles (e_parts [InlinePart ''QQ'', InlinePart ''Qg'']) [] ''Shoe''
          ''A shoe'' [(''Front'', ''f'')] ''gemini-2.5-flash-image'' 800 0) =
     Inr [DataUrl ''data:image/png;base64,QQ''] \<and>
   fst (generateAllProductAngles_2 (e_parts [InlinePart ''QUJD'', TextPart ''one'']) [] ''Shoe''
          ''A shoe'' [(''Front'', ''f''), (''Back'', ''b''), (''Side'', ''s'')]
          ''gemini-2.5-flash-image'' 800 [] 0) =
     Inr [CanvasPng 800 800 ''data:image/png;base64,QUJD'',
          CanvasPng 800 800 ''data:image/png;base64,QUJD'',
          CanvasPng 800 800 ''data:image/png;base64,QUJD''] \<and>
   fst (generateAllProductAngles_2 (e_parts [TextPart ''none'']) [] ''Shoe'' ''A shoe''
          [(''Front'', ''f''), (''Back'', ''b'')] ''gemini-2.5-flash-image'' 800 [] 0) =
     Inl no_image_data \<and>
   fst (generateAllProductAngles_2 (e_parts [InlinePart ''QQ'', InlinePart ''Qg'']) [] ''Shoe''
          ''A shoe'' [(''Front'', ''f'')] ''gemini-2.5-flash-image'' 800 [] 0) =
     Inr [CanvasPng 800 800 ''data:image/png;base64,QQ'']"
proof -
  note a = batched_result_count [where e = "e_parts [TextPart ''none'']" and rf = "[]"
      and k = 0 and parts = "Some [TextPart ''none'']" and tw = 800 and key = "[]"
      and resized = "[]"
      and views = "[(''Front'', ''f''), (''Back'', ''b'')]" and pn = "''Shoe''"
      and pd = "''A shoe''" and m = "''gemini-2.5-flash-image''"]
  note b = batched_result_count [where e = "e_parts [InlinePart ''QUJD'', TextPart ''one'']"
      and rf = "[]" and k = 0 and parts = "Some [InlinePart ''QUJD'', TextPart ''one'']"
      and tw = 800 and key = "[]"
      and resized = "[CanvasPng 800 800 ''data:image/png;base64,QUJD'']"
      and views = "[(''Front'', ''f''), (''Back'', ''b''), (''Side'', ''s'')]"
      and pn = "''Shoe''" and pd = "''A shoe''" and m = "''gemini-2.5-flash-image''"]
  note c = batched_result_count [where e = "e_parts [InlinePart ''QQ'', InlinePart ''Qg'']"
      and rf = "[]" and k = 0 and parts = "Some [InlinePart ''QQ'', InlinePart ''Qg'']"
      and tw = 800 and key = "[]"
      and resized = "[CanvasPng 800 800 ''data:image/png;base64,QQ'',
                      CanvasPng 800 800 ''data:image/png;base64,Qg'']"
      and views = "[(''Front'', ''f'')]" and pn = "''Shoe''"
      and pd = "''A shoe''" and m = "''gemini-2.5-flash-image''"]
  have "fst (generateAllProductAngles (e_parts [TextPart ''none'']) [] ''Shoe'' ''A shoe''
          [(''Front'', ''f''), (''Back'', ''b'')] ''gemini-2.5-flash-image'' 800 0) =
     Inl no_image_data"
    using a by (simp add: e_parts_def readable_def collect_images_def)
  moreover have "fst (generateAllProductAngles (e_parts [InlinePart ''QUJD'', TextPart ''one''])
          [] ''Shoe'' ''A shoe'' [(''Front'', ''f''), (''Back'', ''b''), (''Side'', ''s'')]
          ''gemini-2.5-flash-image'' 800 0) =
     Inr [DataUrl ''data:image/png;base64,QUJD'', DataUrl ''data:image/png;base64,QUJD'',
          DataUrl ''data:image/png;base64,QUJD'']"
    using b by (simp add: e_parts_def readable_def collect_images_def numeral_2_eq_2)
  moreover have "fst (generateAllProductAngles (e_parts [InlinePart ''QQ'', InlinePart ''Qg''])
          [] ''Shoe'' ''A shoe'' [(''Front'', ''f'')] ''gemini-2.5-flash-image'' 800 0) =
     Inr [DataUrl ''data:image/png;base64,QQ'']"
    using c by (simp add: e_parts_def readable_def collect_images_def)
  moreover have "fst (generateAllProductAngles_2
          (e_parts [InlinePart ''QUJD'', TextPart ''one'']) [] ''Shoe''
          ''A shoe'' [(''Front'', ''f''), (''Back'', ''b''), (''Side'', ''s'')]
          ''gemini-2.5-flash-image'' 800 [] 0) =
     Inr [CanvasPng 800 800 ''data:image/png;base64,QUJD'',
          CanvasPng 800 800 ''data:image/png;base64,QUJD'',
          CanvasPng 800 800 ''data:image/png;base64,QUJD'']"
    using b
    by (simp add: e_parts_def readable_def collect_images_def collect_resized_def key_of_def
        resizeBase64Image_def numeral_2_eq_2)
  moreover have "fst (generateAllProductAngles_2 (e_parts [TextPart ''none'']) [] ''Shoe''
          ''A shoe'' [(''Front'', ''f''), (''Back'', ''b'')] ''gemini-2.5-flash-image'' 800 []
          0) =
     Inl no_image_data"
    using a
    by (simp add: e_parts_def readable_def collect_images_def collect_resized_def key_of_def)
  moreover have "fst (generateAllProductAngles_2
          (e_parts [InlinePart ''QQ'', InlinePart ''Qg'']) [] ''Shoe''
          ''A shoe'' [(''Front'', ''f'')] ''gemini-2.5-flash-image'' 800 [] 0) =
     Inr [CanvasPng 800 800 ''data:image/png;base64,QQ'']"
    using c
    by (simp add: e_parts_def readable_def collect_images_def collect_resized_def key_of_def
        resizeBase64Image_def)
  ultimately show ?thesis by blast
qed

subsection \<open>The transcoder and the normalisation of results\<close>

lemma resize_Inr:
  "resizeBase64Image e src targetSize = Inr img \<Longrightarrow>
   img = CanvasPng targetSize targetSize src \<and> decode e src \<noteq> None \<and> getContext2d e"
  by (auto simp: resizeBase64Image_def split: option.splits if_splits)

lemma imagen_raw:
  "fst (generateWithImagen e pn pd a m tw k) = Inr img \<Longrightarrow> isImagenModel m \<Longrightarrow>
   \<exists>j src. k \<le> j \<and> raw_image e m j = Some src \<and> img = DataUrl src"
proof (induction e pn pd a m tw k rule: generateWithImagen.induct)
  case (1 e pn pd a m tw k)
  show ?case
  proof (cases "\<exists>err. generateImages e k = Inl err \<and> k < 3 \<and> retryable err")
    case True
    then obtain err where err: "generateImages e k = Inl err" "k < 3" "retryable err" by blast
    with "1.prems" have ne: "env_key e \<noteq> []"
      by (subst (asm) generateWithImagen.simps) (auto split: if_splits)
    with err "1.prems" have "fst (generateWithImagen e pn pd a m tw (k + 1)) = Inr img"
      by (subst (asm) generateWithImagen.simps) (simp split: prod.splits)
    from "1.IH" [OF ne err(1) _ this "1.prems"(2)] err
    obtain j src where "k + 1 \<le> j" "raw_image e m j = Some src" "img = DataUrl src"
      by auto
    then show ?thesis by (intro exI [of _ j] exI [of _ src]) simp
  next
    case False
    with "1.prems" have "raw_image e m k = Some (case img of DataUrl s \<Rightarrow> s | _ \<Rightarrow> []) \<and>
        img = DataUrl (case img of DataUrl s \<Rightarrow> s | _ \<Rightarrow> [])"
      by (subst (asm) generateWithImagen.simps)
         (auto simp: raw_image_def split: if_splits sum.splits option.splits list.splits
            imagen_image.splits)
    then show ?thesis by blast
  qed
qed


lemma angle_raw:
  "fst (generateProductAngle e rf pn pd a m tw k) = Inr img \<Longrightarrow>
   \<exists>j src. k \<le> j \<and> raw_image e m j = Some src \<and> img = DataUrl src"
proof (induction e rf pn pd a m tw k rule: generateProductAngle.induct)
  case (1 e rf pn pd a m tw k)
  from "1.prems" have ne: "env_key e \<noteq> []"
    by (subst (asm) generateProductAngle.simps) (auto split: if_splits)
  show ?case
  proof (cases "isImagenModel m")
    case True
    with ne "1.prems" have "fst (generateWithImagen e pn pd a m tw k) = Inr img"
      by (subst (asm) generateProductAngle.simps) simp
    with True show ?thesis by (rule_tac imagen_raw)
  next
    case gemini: False
    with ne "1.prems" have rd: "readable rf"
      by (subst (asm) generateProductAngle.simps) (auto split: if_splits)
    show ?thesis
    proof (cases "\<exists>err. generateContent e k = Inl err \<and> k < 3 \<and> retryable err")
      case True
      then obtain err where err: "generateContent e k = Inl err" "k < 3" "retryable err"
        by blast
      with ne gemini rd "1.prems"
      have "fst (generateProductAngle e rf pn pd a m tw (k + 1)) = Inr img"
        by (subst (asm) generateProductAngle.simps) (simp split: prod.splits)
      from "1.IH" [OF ne gemini _ err(1) _ this] rd err
      obtain j src where "k + 1 \<le> j" "raw_image e m j = Some src" "img = DataUrl src"
        by auto
      then show ?thesis by (intro exI [of _ j] exI [of _ src]) simp
    next
      case False
      with ne gemini rd "1.prems"
      have "raw_image e m k = Some (case img of DataUrl s \<Rightarrow> s | _ \<Rightarrow> []) \<and>
          img = DataUrl (case img of DataUrl s \<Rightarrow> s | _ \<Rightarrow> [])"
        by (subst (asm) generateProductAngle.simps)
           (auto simp: raw_image_def split: if_splits sum.splits)
      then show ?thesis by blast
    qed
  qed
qed

lemma imagen_2_resized:
  "fst (generateWithImagen_2 e pn pd a m tw key k) = Inr img \<Longrightarrow> isImagenModel m \<Longrightarrow>
   \<exists>j src. k \<le> j \<and> raw_image e m j = Some src \<and> img = CanvasPng tw tw src"
proof (induction e pn pd a m tw key k rule: generateWithImagen_2.induct)
  case (1 e pn pd a m tw key k)
  show ?case
  proof (cases "\<exists>err. generateImages e k = Inl err \<and> k < 3 \<and> retryable err")
    case True
    then obtain err where err: "generateImages e k = Inl err" "k < 3" "retryable err" by blast
    with "1.prems" have ne: "key \<noteq> []"
      by (subst (asm) generateWithImagen_2.simps) (auto split: if_splits)
    with err "1.prems" have "fst (generateWithImagen_2 e pn pd a m tw key (k + 1)) = Inr img"
      by (subst (asm) generateWithImagen_2.simps) (simp split: prod.splits)
    from "1.IH" [OF ne err(1) _ this "1.prems"(2)] err
    obtain j src where "k + 1 \<le> j" "raw_image e m j = Some src" "img = CanvasPng tw tw src"
      by auto
    then show ?thesis by (intro exI [of _ j] exI [of _ src]) simp
  next
    case False
    with "1.prems"
    have "raw_image e m k = Some (case img of CanvasPng w h s \<Rightarrow> s | _ \<Rightarrow> []) \<and>
        img = CanvasPng tw tw (case img of CanvasPng w h s \<Rightarrow> s | _ \<Rightarrow> [])"
      by (subst (asm) generateWithImagen_2.simps)
         (auto simp: raw_image_def split: if_splits sum.splits option.splits list.splits
            imagen_image.splits dest!: resize_Inr)
    then show ?thesis by blast
  qed
qed

lemma angle_2_resized:
  "fst (generateProductAngle_2 e rf pn pd a m tw key k) = Inr img \<Longrightarrow>
   \<exists>j src. k \<le> j \<and> raw_image e m j = Some src \<and> img = CanvasPng tw tw src"
proof (induction e rf pn pd a m tw key k rule: generateProductAngle_2.induct)
  case (1 e rf pn pd a m tw key k)
  from "1.prems" have ne: "key_of e key \<noteq> []"
    by (subst (asm) generateProductAngle_2.simps) (auto split: if_splits)
  show ?case
  proof (cases "isImagenModel m")
    case True
    with ne "1.prems" have "fst (generateWithImagen_2 e pn pd a m tw (key_of e key) k) = Inr img"
      by (subst (asm) generateProductAngle_2.simps) simp
    with True show ?thesis by (rule_tac imagen_2_resized)
  next
    case gemini: False
    with ne "1.prems" have rd: "readable rf"
      by (subst (asm) generateProductAngle_2.simps) (auto split: if_splits)
    show ?thesis
    proof (cases "\<exists>err. generateContent e k = Inl err \<and> k < 3 \<and> retryable err")
      case True
      then obtain err where err: "generateContent e k = Inl err" "k < 3" "retryable err"
        by blast
      with ne gemini rd "1.prems"
      have "fst (generateProductAngle_2 e rf pn pd a m tw (key_of e key) (k + 1)) = Inr img"
        by (subst (asm) generateProductAngle_2.simps) (simp split: prod.splits)
      from "1.IH" [OF ne gemini _ err(1) _ this] rd err
      obtain j src where "k + 1 \<le> j" "raw_image e m j = Some src" "img = CanvasPng tw tw src"
        by auto
      then show ?thesis by (intro exI [of _ j] exI [of _ src]) simp
    next
      case False
      with ne gemini rd "1.prems"
      have "raw_image e m k = Some (case img of CanvasPng w h s \<Rightarrow> s | _ \<Rightarrow> []) \<and>
          img = CanvasPng tw tw (case img of CanvasPng w h s \<Rightarrow> s | _ \<Rightarrow> [])"
        by (subst (asm) generateProductAngle_2.simps)
           (auto simp: raw_image_def split: if_splits sum.splits dest!: resize_Inr)
      then show ?thesis by blast
    qed
  qed
qed




text \<open>
  Claim C6, as stated, fails on services/gemini.ts: its single-view call hands back the
  data URL built from the model's bytes, here an image of 1024 by 768 pixels although
  800 by 800 were asked for.
\<close>

theorem raw_image_returned_unresized:
  "fst (generateProductAngle (e_parts [InlinePart ''QUJD'']) [] ''Red'' ''A shoe''
          ''Front view'' ''gemini-2.5-flash-image'' 800 0) =
     Inr (DataUrl ''data:image/png;base64,QUJD'') \<and>
   dims (e_parts [InlinePart ''QUJD'']) (DataUrl ''data:image/png;base64,QUJD'') =
     Some (1024, 768)"
  by (simp add: generateProductAngle.simps e_parts_def isImagenModel_def readable_def
      resultBase64_def)

text \<open>
  Claim C6, amended. Every image that the single-view call of the client variant with the
  key parameter returns is the canvas image of \<open>tw\<close> by \<open>tw\<close> pixels made by the transcoder
  from the raw image that the remote handed over at one of the attempts, on the Gemini
  and on the Imagen path alike; every image that the single-view call of
  services/gemini.ts returns is that raw image itself, with whatever dimensions it has.
\<close>

theorem normalization_unconditional:
  "(\<forall>img. fst (generateProductAngle_2 e rf pn pd a m tw key k) = Inr img \<longrightarrow>
      (\<exists>j src. k \<le> j \<and> raw_image e m j = Some src \<and> img = CanvasPng tw tw src) \<and>
      dims e img = Some (tw, tw)) \<and>
   (\<forall>img. fst (generateProductAngle e rf pn pd a m tw k) = Inr img \<longrightarrow>
      (\<exists>j src. k \<le> j \<and> raw_image e m j = Some src \<and> img = DataUrl src \<and>
         dims e img = decode e src))"
proof (intro conjI allI impI)
  fix img
  assume "fst (generateProductAngle_2 e rf pn pd a m tw key k) = Inr img"
  then obtain j src where *: "k \<le> j" "raw_image e m j = Some src" "img = CanvasPng tw tw src"
    using angle_2_resized by blast
  then show "\<exists>j src. k \<le> j \<and> raw_image e m j = Some src \<and> img = CanvasPng tw tw src"
    by blast
  from * show "dims e img = Some (tw, tw)" by simp
next
  fix img
  assume "fst (generateProductAngle e rf pn pd a m tw k) = Inr img"
  then obtain j src where "k \<le> j" "raw_image e m j = Some src" "img = DataUrl src"
    using angle_raw by blast
  then show "\<exists>j src. k \<le> j \<and> raw_image e m j = Some src \<and> img = DataUrl src \<and>
      dims e img = decode e src"
    by auto
qed

theorem normalization_unconditional_witness:
  "fst (generateProductAngle_2 (e_parts [InlinePart ''QUJD'']) [] ''Red'' ''A shoe''
          ''Front view'' ''gemini-2.5-flash-image'' 800 ''key'' 0) =
     Inr (CanvasPng 800 800 ''data:image/png;base64,QUJD'') \<and>
   dims (e_parts [InlinePart ''QUJD'']) (CanvasPng 800 800 ''data:image/png;base64,QUJD'') =
     Some (800, 800) \<and>
   fst (generateProductAngle (e_parts [InlinePart ''QUJD'']) [] ''Red'' ''A shoe''
          ''Front view'' ''gemini-2.5-flash-image'' 800 0) =
     Inr (DataUrl ''data:image/png;base64,QUJD'') \<and>
   (\<exists>j. raw_image (e_parts [InlinePart ''QUJD'']) ''gemini-2.5-flash-image'' j =
      Some ''data:image/png;base64,QUJD'')"
proof -
  have r: "fst (generateProductAngle_2 (e_parts [InlinePart ''QUJD'']) [] ''Red'' ''A shoe''
          ''Front view'' ''gemini-2.5-flash-image'' 800 ''key'' 0) =
     Inr (CanvasPng 800 800 ''data:image/png;base64,QUJD'')"
    by (simp add: generateProductAngle_2.simps e_parts_def isImagenModel_def readable_def
        resultBase64_def key_of_def resizeBase64Image_def)
  have q: "fst (generateProductAngle (e_parts [InlinePart ''QUJD'']) [] ''Red'' ''A shoe''
          ''Front view'' ''gemini-2.5-flash-image'' 800 0) =
     Inr (DataUrl ''data:image/png;base64,QUJD'')"
    by (simp add: generateProductAngle.simps e_parts_def isImagenModel_def readable_def
        resultBase64_def)
  from normalization_unconditional [of "e_parts [InlinePart ''QUJD'']" "[]" "''Red''"
      "''A shoe''" "''Front view''" "''gemini-2.5-flash-image''" 800 "''key''" 0] r q
  show ?thesis by auto
qed

section \<open>Properties of the handlers\<close>

subsection \<open>A run of the batch handler that is not stopped\<close>

lemma addLog_fields [simp]:
  "products (addLog m t s) = products s"
  "status (addLog m t s) = status s"
  "totalAnglesProcessed (addLog m t s) = totalAnglesProcessed s"
  "totalAnglesToProcess (addLog m t s) = totalAnglesToProcess s"
  "apiRequestCount (addLog m t s) = apiRequestCount s"
  "stopRequested (addLog m t s) = stopRequested s"
  by (simp_all add: addLog_def)

lemma request_stop_fields [simp]:
  "products (request_stop s) = products s"
  "status (request_stop s) = status s"
  "totalAnglesProcessed (request_stop s) = totalAnglesProcessed s"
  "totalAnglesToProcess (request_stop s) = totalAnglesToProcess s"
  "apiRequestCount (request_stop s) = apiRequestCount s"
  by (simp_all add: request_stop_def)

lemma batch_unit_effect:
  "\<exists>s'. batch_unit w c product angle (s, generatedImages, k) =
          (s', generatedImages @ [unit_result w c product angle k], Suc k) \<and>
        products s' = products s \<and> status s' = status s \<and>
        totalAnglesToProcess s' = totalAnglesToProcess s \<and>
        totalAnglesProcessed s' = Suc (totalAnglesProcessed s) \<and>
        Suc (apiRequestCount s) \<le> apiRequestCount s' \<and>
        (fetch_ok w \<longrightarrow> apiRequestCount s' = Suc (apiRequestCount s))"
proof (cases "call_client w c product angle k")
  case (Inl err)
  then show ?thesis
    by (simp add: batch_unit_def batch_catch_def unit_result_def Let_def)
next
  case (Inr blobUrl)
  show ?thesis
  proof (cases "fetch w blobUrl")
    case (Inl err)
    then have "\<not> fetch_ok w" by (auto simp: fetch_ok_def intro!: exI [of _ blobUrl])
    with Inl Inr show ?thesis
      by (simp add: batch_unit_def batch_catch_def unit_result_def Let_def)
  next
    case fetched: (Inr blob)
    with Inr show ?thesis
      by (simp add: batch_unit_def unit_result_def Let_def)
  qed
qed

lemma batch_angles_effect:
  assumes "\<not> stopRequested c"
  shows "\<exists>s'. batch_angles w c product rest (s, generatedImages, k) =
          Next (s', generatedImages @ unit_results w c product rest k, k + length rest) \<and>
        products s' = products s \<and> status s' = status s \<and>
        totalAnglesToProcess s' = totalAnglesToProcess s \<and>
        totalAnglesProcessed s' = totalAnglesProcessed s + length rest \<and>
        apiRequestCount s + length rest \<le> apiRequestCount s' \<and>
        (fetch_ok w \<longrightarrow> apiRequestCount s' = apiRequestCount s + length rest)"
proof (induction rest arbitrary: s generatedImages k)
  case Nil
  then show ?case by simp
next
  case (Cons angle rest)
  obtain s1 where 1:
    "batch_unit w c product angle (s, generatedImages, k) =
       (s1, generatedImages @ [unit_result w c product angle k], Suc k)"
    "products s1 = products s" "status s1 = status s"
    "totalAnglesToProcess s1 = totalAnglesToProcess s"
    "totalAnglesProcessed s1 = Suc (totalAnglesProcessed s)"
    "Suc (apiRequestCount s) \<le> apiRequestCount s1"
    "fetch_ok w \<longrightarrow> apiRequestCount s1 = Suc (apiRequestCount s)"
    using batch_unit_effect [of w c product angle s generatedImages k] by blast
  obtain s2 where 2:
    "batch_angles w c product rest
       (s1, generatedImages @ [unit_result w c product angle k], Suc k) =
     Next (s2, (generatedImages @ [unit_result w c product angle k]) @
               unit_results w c product rest (Suc k), Suc k + length rest)"
    "products s2 = products s1" "status s2 = status s1"
    "totalAnglesToProcess s2 = totalAnglesToProcess s1"
    "totalAnglesProcessed s2 = totalAnglesProcessed s1 + length rest"
    "apiRequestCount s1 + length rest \<le> apiRequestCount s2"
    "fetch_ok w \<longrightarrow> apiRequestCount s2 = apiRequestCount s1 + length rest"
    using Cons.IH [of s1 "generatedImages @ [unit_result w c product angle k]" "Suc k"]
    by blast
  from assms 1 2 show ?case
    by (intro exI [of _ s2]) simp
qed


lemma run_start_fields [simp]:
  "products (run_start c s) = products s"
  "status (run_start c s) = AppProcessing"
  "totalAnglesProcessed (run_start c s) = 0"
  "totalAnglesToProcess (run_start c s) = length (productsToProcess c) * length (enabledAngles c)"
  "apiRequestCount (run_start c s) = 0"
  "stopRequested (run_start c s) = stopRequested s"
  "activityLog (run_start c s) = [(StartingGeneration, Info)]"
  by (simp_all add: run_start_def addLog_def)

lemma batch_products_effect:
  assumes "\<not> stopRequested c"
  shows "products s = updatedProducts \<Longrightarrow>
     \<exists>s'. batch_products w c rest i (s, updatedProducts, k) =
          Next (s', expected_products w c rest (currentProductIndex c + i) updatedProducts k,
                k + length rest * length (enabledAngles c)) \<and>
        products s' =
          expected_products w c rest (currentProductIndex c + i) updatedProducts k \<and>
        status s' = status s \<and>
        totalAnglesToProcess s' = totalAnglesToProcess s \<and>
        totalAnglesProcessed s' =
          totalAnglesProcessed s + length rest * length (enabledAngles c) \<and>
        apiRequestCount s + length rest * length (enabledAngles c) \<le> apiRequestCount s' \<and>
        (fetch_ok w \<longrightarrow>
           apiRequestCount s' = apiRequestCount s + length rest * length (enabledAngles c))"
proof (induction rest arbitrary: i s updatedProducts k)
  case Nil
  then show ?case by simp
next
  case (Cons product rest)
  let ?s1 = "addLog (ProcessingProduct (p_name product)) Info s"
  let ?m = "length (enabledAngles c)"
  let ?gi = "unit_results w c product (enabledAngles c) k"
  let ?ups = "updatedProducts[currentProductIndex c + i :=
          (updatedProducts ! (currentProductIndex c + i))\<lparr>p_generatedImages := ?gi\<rparr>]"
  obtain s2 where 2:
    "batch_angles w c product (enabledAngles c) (?s1, [], k) = Next (s2, ?gi, k + ?m)"
    "status s2 = status s"
    "totalAnglesToProcess s2 = totalAnglesToProcess s"
    "totalAnglesProcessed s2 = totalAnglesProcessed s + ?m"
    "apiRequestCount s + ?m \<le> apiRequestCount s2"
    "fetch_ok w \<longrightarrow> apiRequestCount s2 = apiRequestCount s + ?m"
    using batch_angles_effect [OF assms, of w product "enabledAngles c" ?s1 "[]" k]
    by auto
  have "products (s2\<lparr>products := ?ups\<rparr>) = ?ups" by simp
  from Cons.IH [OF this, of "Suc i" "k + ?m"]
  obtain s3 where 3:
    "batch_products w c rest (Suc i) (s2\<lparr>products := ?ups\<rparr>, ?ups, k + ?m) =
       Next (s3, expected_products w c rest (Suc (currentProductIndex c + i)) ?ups (k + ?m),
             k + ?m + length rest * ?m)"
    "products s3 = expected_products w c rest (Suc (currentProductIndex c + i)) ?ups (k + ?m)"
    "status s3 = status s2"
    "totalAnglesToProcess s3 = totalAnglesToProcess s2"
    "totalAnglesProcessed s3 = totalAnglesProcessed s2 + length rest * ?m"
    "apiRequestCount s2 + length rest * ?m \<le> apiRequestCount s3"
    "fetch_ok w \<longrightarrow> apiRequestCount s3 = apiRequestCount s2 + length rest * ?m"
    by auto
  from assms 2 3 show ?case
    by (intro exI [of _ s3]) (simp add: Let_def)
qed


lemma unit_results_length [simp]: "length (unit_results w c product rest k) = length rest"
  by (induction rest arbitrary: k) simp_all

lemma unit_results_nth:
  "j < length rest \<Longrightarrow>
   unit_results w c product rest k ! j = unit_result w c product (rest ! j) (k + j)"
  by (induction rest arbitrary: k j) (auto simp: nth_Cons split: nat.splits)

lemma expected_products_length [simp]:
  "length (expected_products w c rest n updatedProducts k) = length updatedProducts"
  by (induction rest arbitrary: n updatedProducts k) simp_all

lemma expected_products_outside:
  "i < n \<or> n + length rest \<le> i \<Longrightarrow>
   expected_products w c rest n updatedProducts k ! i = updatedProducts ! i"
  by (induction rest arbitrary: n updatedProducts k) auto

lemma expected_products_inside:
  "j < length rest \<Longrightarrow> n + length rest \<le> length updatedProducts \<Longrightarrow>
   expected_products w c rest n updatedProducts k ! (n + j) =
     (updatedProducts ! (n + j))
       \<lparr>p_generatedImages :=
          unit_results w c (rest ! j) (enabledAngles c) (k + j * length (enabledAngles c))\<rparr>"
proof (induction rest arbitrary: n updatedProducts k j)
  case Nil
  then show ?case by simp
next
  case (Cons product rest)
  show ?case
  proof (cases j)
    case 0
    with Cons.prems show ?thesis
      by (simp add: expected_products_outside)
  next
    case (Suc j')
    with Cons.prems Cons.IH [of j' "Suc n" _ "k + length (enabledAngles c)"]
    show ?thesis
      by (simp add: add.assoc add.left_commute)
  qed
qed

lemma productsToProcess_bound:
  "productsToProcess c \<noteq> [] \<Longrightarrow>
   currentProductIndex c + length (productsToProcess c) \<le> length (products c)"
  by (auto simp: productsToProcess_def Let_def min_def split: if_splits)

lemma productsToProcess_nth:
  "i < length (productsToProcess c) \<Longrightarrow>
   productsToProcess c ! i = products c ! (currentProductIndex c + i)"
  by (auto simp: productsToProcess_def Let_def)

lemma productsToProcess_length:
  "length (productsToProcess c) =
   min (currentProductIndex c + batchSize c) (length (products c)) - currentProductIndex c"
  by (auto simp: productsToProcess_def Let_def)

lemma batch_finish_fields [simp]:
  "products (batch_finish c s) = products s"
  "status (batch_finish c s) = AppCompleted"
  "totalAnglesProcessed (batch_finish c s) = totalAnglesProcessed s"
  "totalAnglesToProcess (batch_finish c s) = totalAnglesToProcess s"
  "apiRequestCount (batch_finish c s) = apiRequestCount s"
  "stopRequested (batch_finish c s) = stopRequested s"
  by (simp_all add: batch_finish_def Let_def)

lemma batch_run:
  assumes "products c \<noteq> []" and "\<not> stopRequested c"
  shows "\<exists>s'. handleGenerateBatch w c =
            (s', length (productsToProcess c) * length (enabledAngles c)) \<and>
          products s' =
            expected_products w c (productsToProcess c) (currentProductIndex c) (products c)
              0 \<and>
          status s' = AppCompleted \<and>
          totalAnglesToProcess s' = length (productsToProcess c) * length (enabledAngles c) \<and>
          totalAnglesProcessed s' = length (productsToProcess c) * length (enabledAngles c) \<and>
          length (productsToProcess c) * length (enabledAngles c) \<le> apiRequestCount s' \<and>
          (fetch_ok w \<longrightarrow>
             apiRequestCount s' = length (productsToProcess c) * length (enabledAngles c))"
proof -
  have "products (run_start c c) = products c" by simp
  from batch_products_effect [OF assms(2) this, of w "productsToProcess c" 0 0]
  obtain s1 where 1:
    "batch_products w c (productsToProcess c) 0 (run_start c c, products c, 0) =
       Next (s1, expected_products w c (productsToProcess c) (currentProductIndex c)
                   (products c) 0,
             length (productsToProcess c) * length (enabledAngles c))"
    "products s1 =
       expected_products w c (productsToProcess c) (currentProductIndex c) (products c) 0"
    "totalAnglesToProcess s1 = length (productsToProcess c) * length (enabledAngles c)"
    "totalAnglesProcessed s1 = length (productsToProcess c) * length (enabledAngles c)"
    "length (productsToProcess c) * length (enabledAngles c) \<le> apiRequestCount s1"
    "fetch_ok w \<longrightarrow>
       apiRequestCount s1 = length (productsToProcess c) * length (enabledAngles c)"
    by auto
  with assms(1) show ?thesis
    by (intro exI [of _ "batch_finish c s1"]) (simp add: handleGenerateBatch_def)
qed

subsection \<open>A run of the generate-all handler that is not stopped\<close>

lemma all_unit_effect:
  "\<exists>s'. all_unit w c product angle (s, generatedImages, k) =
          (s', generatedImages @ [unit_result w c product angle k], Suc k) \<and>
        products s' = products s \<and> status s' = status s \<and>
        totalAnglesToProcess s' = totalAnglesToProcess s \<and>
        totalAnglesProcessed s' = Suc (totalAnglesProcessed s) \<and>
        apiRequestCount s' = apiRequestCount s"
  by (cases "call_client w c product angle k"; cases "fetch w (projr (call_client w c product angle k))")
     (simp_all add: all_unit_def all_catch_def unit_result_def Let_def)

lemma all_angles_effect:
  assumes "\<not> stopRequested c"
  shows "\<exists>s'. all_angles w c product rest (s, generatedImages, k) =
          Next (s', generatedImages @ unit_results w c product rest k, k + length rest) \<and>
        products s' = products s \<and> status s' = status s \<and>
        totalAnglesToProcess s' = totalAnglesToProcess s \<and>
        totalAnglesProcessed s' = totalAnglesProcessed s + length rest \<and>
        apiRequestCount s' = apiRequestCount s"
proof (induction rest arbitrary: s generatedImages k)
  case Nil
  then show ?case by simp
next
  case (Cons angle rest)
  obtain s1 where 1:
    "all_unit w c product angle (s, generatedImages, k) =
       (s1, generatedImages @ [unit_result w c product angle k], Suc k)"
    "products s1 = products s" "status s1 = status s"
    "totalAnglesToProcess s1 = totalAnglesToProcess s"
    "totalAnglesProcessed s1 = Suc (totalAnglesProcessed s)"
    "apiRequestCount s1 = apiRequestCount s"
    using all_unit_effect [of w c product angle s generatedImages k] by blast
  obtain s2 where 2:
    "all_angles w c product rest
       (s1, generatedImages @ [unit_result w c product angle k], Suc k) =
     Next (s2, (generatedImages @ [unit_result w c product angle k]) @
               unit_results w c product rest (Suc k), Suc k + length rest)"
    "products s2 = products s1" "status s2 = status s1"
    "totalAnglesToProcess s2 = totalAnglesToProcess s1"
    "totalAnglesProcessed s2 = totalAnglesProcessed s1 + length rest"
    "apiRequestCount s2 = apiRequestCount s1"
    using Cons.IH [of s1 "generatedImages @ [unit_result w c product angle k]" "Suc k"]
    by blast
  from assms 1 2 show ?case
    by (intro exI [of _ s2]) simp
qed

lemma all_products_effect:
  assumes "\<not> stopRequested c"
  shows "products s = updatedProducts \<Longrightarrow>
     \<exists>s'. all_products w c rest n (s, updatedProducts, k) =
          Next (s', expected_products w c rest n updatedProducts k,
                k + length rest * length (enabledAngles c)) \<and>
        products s' = expected_products w c rest n updatedProducts k \<and>
        status s' = status s \<and>
        totalAnglesToProcess s' = totalAnglesToProcess s \<and>
        totalAnglesProcessed s' =
          totalAnglesProcessed s + length rest * length (enabledAngles c) \<and>
        apiRequestCount s' = apiRequestCount s"
proof (induction rest arbitrary: n s updatedProducts k)
  case Nil
  then show ?case by simp
next
  case (Cons product rest)
  let ?m = "length (enabledAngles c)"
  let ?gi = "unit_results w c product (enabledAngles c) k"
  let ?ups = "updatedProducts[n := (updatedProducts ! n)\<lparr>p_generatedImages := ?gi\<rparr>]"
  obtain s2 where 2:
    "all_angles w c product (enabledAngles c) (s, [], k) = Next (s2, ?gi, k + ?m)"
    "status s2 = status s"
    "totalAnglesToProcess s2 = totalAnglesToProcess s"
    "totalAnglesProcessed s2 = totalAnglesProcessed s + ?m"
    "apiRequestCount s2 = apiRequestCount s"
    using all_angles_effect [OF assms, of w product "enabledAngles c" s "[]" k]
    by auto
  have "products (s2\<lparr>products := ?ups\<rparr>) = ?ups" by simp
  from Cons.IH [OF this, of "Suc n" "k + ?m"]
  obtain s3 where 3:
    "all_products w c rest (Suc n) (s2\<lparr>products := ?ups\<rparr>, ?ups, k + ?m) =
       Next (s3, expected_products w c rest (Suc n) ?ups (k + ?m), k + ?m + length rest * ?m)"
    "products s3 = expected_products w c rest (Suc n) ?ups (k + ?m)"
    "status s3 = status s2"
    "totalAnglesToProcess s3 = totalAnglesToProcess s2"
    "totalAnglesProcessed s3 = totalAnglesProcessed s2 + length rest * ?m"
    "apiRequestCount s3 = apiRequestCount s2"
    by auto
  from assms 2 3 show ?case
    by (intro exI [of _ s3]) (simp add: Let_def)
qed

lemma all_run:
  assumes "products c \<noteq> []" and "\<not> stopRequested c"
  shows "\<exists>s'. handleGenerateAll w c = (s', length (products c) * length (enabledAngles c)) \<and>
          products s' = expected_products w c (products c) 0 (products c) 0 \<and>
          status s' = AppCompleted \<and>
          totalAnglesToProcess s' = length (products c) * length (enabledAngles c) \<and>
          totalAnglesProcessed s' = length (products c) * length (enabledAngles c) \<and>
          apiRequestCount s' = apiRequestCount c"
proof -
  let ?s0 = "c\<lparr>status := AppProcessing, error := [],
      totalAnglesToProcess := length (products c) * length (enabledAngles c),
      totalAnglesProcessed := 0\<rparr>"
  have "products ?s0 = products c" by simp
  from all_products_effect [OF assms(2) this, of w "products c" 0 0]
  obtain s1 where 1:
    "all_products w c (products c) 0 (?s0, products c, 0) =
       Next (s1, expected_products w c (products c) 0 (products c) 0,
             length (products c) * length (enabledAngles c))"
    "products s1 = expected_products w c (products c) 0 (products c) 0"
    "totalAnglesToProcess s1 = length (products c) * length (enabledAngles c)"
    "totalAnglesProcessed s1 = length (products c) * length (enabledAngles c)"
    "apiRequestCount s1 = apiRequestCount c"
    by auto
  with assms(1) show ?thesis
    by (intro exI [of _ "s1\<lparr>status := AppCompleted\<rparr>"]) (simp add: handleGenerateAll_def Let_def)
qed

subsection \<open>The results of a run\<close>

lemma batch_results:
  assumes "products c \<noteq> []" and "\<not> stopRequested c" and "i < length (productsToProcess c)"
  shows "p_generatedImages (products (fst (handleGenerateBatch w c)) ! (currentProductIndex c + i)) =
     unit_results w c (productsToProcess c ! i) (enabledAngles c) (i * length (enabledAngles c))"
proof -
  from assms(3) have "productsToProcess c \<noteq> []" by auto
  then have "currentProductIndex c + length (productsToProcess c) \<le> length (products c)"
    by (rule productsToProcess_bound)
  from expected_products_inside [OF assms(3) this, of w c 0] batch_run [OF assms(1,2), of w]
  show ?thesis by auto
qed

lemma all_results:
  assumes "products c \<noteq> []" and "\<not> stopRequested c" and "i < length (products c)"
  shows "p_generatedImages (products (fst (handleGenerateAll w c)) ! i) =
     unit_results w c (products c ! i) (enabledAngles c) (i * length (enabledAngles c))"
  using expected_products_inside [OF assms(3), of 0 "products c" w c 0]
    all_run [OF assms(1,2), of w]
  by auto

lemma client_2_nokey:
  "key_of (envs k) key = [] \<Longrightarrow>
   client_2 envs k rf pn pd prompt m tw key = Inl missing_api_key"
  by (simp add: client_2_def generateProductAngle_2.simps)

lemma unit_results_nokey:
  assumes "client w = client_2 envs" and "\<And>k. key_of (envs k) (apiKey c) = []"
  shows "unit_results w c product rest k = map (failed_image product) rest"
  using assms
  by (induction rest arbitrary: k)
     (simp_all add: unit_result_def call_client_def client_2_nokey)

lemma batch_stale_stop:
  assumes "products c \<noteq> []" and "productsToProcess c \<noteq> []" and "stopRequested c"
  shows "handleGenerateBatch w c = (stop_run (run_start c c), 0)"
proof -
  from assms(2) obtain product rest where "productsToProcess c = product # rest"
    by (cases "productsToProcess c") auto
  with assms(1,3) show ?thesis
    by (simp add: handleGenerateBatch_def)
qed

subsection \<open>Cancellation\<close>

text \<open>
  Claim C1 does not hold of the code. The loop tests \<open>stopRequested\<close> of the render that
  created the handler, and pressing STOP writes to the cell, which that render never
  sees. With one product, two enabled angles and STOP pressed while the first call is in
  flight, the run makes both calls, stores both results, and ends with the flag still
  set.
\<close>

theorem stop_request_not_observed:
  "snd (handleGenerateBatch w_stop c_red) = 2 \<and>
   stopRequested (fst (handleGenerateBatch w_stop c_red)) \<and>
   map img_status (p_generatedImages (products (fst (handleGenerateBatch w_stop c_red)) ! 0)) =
     [Completed, Completed]"
  by code_simp

subsection \<open>Units and their outcomes\<close>

text \<open>
  Claim C2, as stated, fails in two places. The entry of a failed unit has no field for
  the message of the error: runs whose calls fail with different messages leave the same
  entries. And \<open>handleGenerateAll\<close> never touches the request counter: after two calls it
  is still 0.
\<close>

theorem failed_entry_without_message:
  "p_generatedImages (products (fst (handleGenerateBatch (w_fail ''boom'') c_red)) ! 0) =
     [failed_image red front_view, failed_image red back_view] \<and>
   p_generatedImages (products (fst (handleGenerateBatch (w_fail ''bang'') c_red)) ! 0) =
     [failed_image red front_view, failed_image red back_view] \<and>
   snd (handleGenerateAll w_ok c_red) = 2 \<and>
   apiRequestCount (fst (handleGenerateAll w_ok c_red)) = 0"
  by code_simp

text \<open>
  Claim C2, amended. In a run whose render has no stop request pending, both handlers call
  the client once for every enabled angle of every product they process, in order, and
  each call leaves exactly one entry in the results of its product: a completed entry
  with the returned URL when the call and the fetch of its URL succeed, and otherwise a
  failed entry with empty preview and no message (the batch handler writes the message
  to the activity log). Whatever the outcomes, the run ends completed with the counter of
  processed units equal to the total. The batch handler's request counter equals the
  total as well, provided every fetch succeeds; \<open>handleGenerateAll\<close> leaves the request
  counter as it was.
\<close>

theorem unit_outcomes_recorded:
  assumes "products c \<noteq> []" and "\<not> stopRequested c"
  shows
    "snd (handleGenerateBatch w c) = length (productsToProcess c) * length (enabledAngles c) \<and>
     (\<forall>i<length (productsToProcess c).
        p_generatedImages
          (products (fst (handleGenerateBatch w c)) ! (currentProductIndex c + i)) =
        unit_results w c (productsToProcess c ! i) (enabledAngles c)
          (i * length (enabledAngles c))) \<and>
     totalAnglesProcessed (fst (handleGenerateBatch w c)) =
       totalAnglesToProcess (fst (handleGenerateBatch w c)) \<and>
     totalAnglesToProcess (fst (handleGenerateBatch w c)) =
       length (productsToProcess c) * length (enabledAngles c) \<and>
     status (fst (handleGenerateBatch w c)) = AppCompleted \<and>
     (fetch_ok w \<longrightarrow>
        apiRequestCount (fst (handleGenerateBatch w c)) =
          length (productsToProcess c) * length (enabledAngles c)) \<and>
     snd (handleGenerateAll w c) = length (products c) * length (enabledAngles c) \<and>
     (\<forall>i<length (products c).
        p_generatedImages (products (fst (handleGenerateAll w c)) ! i) =
        unit_results w c (products c ! i) (enabledAngles c) (i * length (enabledAngles c))) \<and>
     totalAnglesProcessed (fst (handleGenerateAll w c)) =
       length (products c) * length (enabledAngles c) \<and>
     status (fst (handleGenerateAll w c)) = AppCompleted \<and>
     apiRequestCount (fst (handleGenerateAll w c)) = apiRequestCount c"
proof -
  from batch_run [OF assms, of w] obtain s where s:
    "handleGenerateBatch w c = (s, length (productsToProcess c) * length (enabledAngles c))"
    "status s = AppCompleted"
    "totalAnglesToProcess s = length (productsToProcess c) * length (enabledAngles c)"
    "totalAnglesProcessed s = length (productsToProcess c) * length (enabledAngles c)"
    "fetch_ok w \<longrightarrow>
       apiRequestCount s = length (productsToProcess c) * length (enabledAngles c)"
    by blast
  from all_run [OF assms, of w] obtain t where t:
    "handleGenerateAll w c = (t, length (products c) * length (enabledAngles c))"
    "status t = AppCompleted"
    "totalAnglesProcessed t = length (products c) * length (enabledAngles c)"
    "apiRequestCount t = apiRequestCount c"
    by blast
  from s t batch_results [OF assms, of _ w] all_results [OF assms, of _ w]
  show ?thesis by simp
qed

theorem unit_outcomes_recorded_witness:
  "snd (handleGenerateBatch (w_fail ''boom'') c_red) = 2 \<and>
   p_generatedImages (products (fst (handleGenerateBatch (w_fail ''boom'') c_red)) ! 0) =
     [failed_image red front_view, failed_image red back_view] \<and>
   totalAnglesProcessed (fst (handleGenerateBatch (w_fail ''boom'') c_red)) = 2 \<and>
   status (fst (handleGenerateBatch (w_fail ''boom'') c_red)) = AppCompleted \<and>
   apiRequestCount (fst (handleGenerateBatch (w_fail ''boom'') c_red)) = 2 \<and>
   snd (handleGenerateAll (w_fail ''boom'') c_red) = 2 \<and>
   p_generatedImages (products (fst (handleGenerateAll (w_fail ''boom'') c_red)) ! 0) =
     [failed_image red front_view, failed_image red back_view] \<and>
   totalAnglesProcessed (fst (handleGenerateAll (w_fail ''boom'') c_red)) = 2 \<and>
   apiRequestCount (fst (handleGenerateAll (w_fail ''boom'') c_red)) = 0"
proof -
  have p: "productsToProcess c_red = [red]" "enabledAngles c_red = [front_view, back_view]"
    by (simp_all add: productsToProcess_def enabledAngles_def c_red_def front_view_def
        back_view_def)
  have f: "fetch_ok (w_fail ''boom'')"
    by (simp add: fetch_ok_def w_fail_def w_ok_def)
  have h: "products c_red \<noteq> []" "\<not> stopRequested c_red"
    by (simp_all add: c_red_def)
  have u: "unit_results (w_fail ''boom'') c_red red [front_view, back_view] 0 =
      [failed_image red front_view, failed_image red back_view]"
    by (simp add: unit_result_def call_client_def w_fail_def w_ok_def)
  from unit_outcomes_recorded [OF h, of "w_fail ''boom''"] p f u show ?thesis
    by (simp add: c_red_def)
qed

subsection \<open>Missing credential\<close>

text \<open>
  Claim C5, as stated, fails in its second half: without any key the run is not aborted.
  Both calls are made, each leaves a failed entry, and the run ends completed.
\<close>

theorem missing_credential_not_fatal:
  "snd (handleGenerateBatch w_nokey c_nokey) = 2 \<and>
   p_generatedImages (products (fst (handleGenerateBatch w_nokey c_nokey)) ! 0) =
     [failed_image red front_view, failed_image red back_view] \<and>
   status (fst (handleGenerateBatch w_nokey c_nokey)) = AppCompleted"
  by code_simp

text \<open>
  Claim C5, amended. A single-view call made without a key fails with the missing-key
  error before any request or sleep, in both copies of the client. The batch handler
  treats this error like any other failure of a unit: when no call of a run finds a key,
  every unit of the run is attempted and leaves a failed entry, and the run ends
  completed with all units counted as processed.
\<close>

theorem missing_credential:
  "(key_of e key = [] \<longrightarrow>
      generateProductAngle_2 e rf pn pd a m tw key k = (Inl missing_api_key, [])) \<and>
   (env_key e = [] \<longrightarrow>
      generateProductAngle e rf pn pd a m tw k = (Inl missing_env_key, [])) \<and>
   (client w = client_2 envs \<and> (\<forall>n. key_of (envs n) (apiKey c) = []) \<and>
    products c \<noteq> [] \<and> \<not> stopRequested c \<longrightarrow>
      snd (handleGenerateBatch w c) = length (productsToProcess c) * length (enabledAngles c) \<and>
      (\<forall>i<length (productsToProcess c).
         p_generatedImages
           (products (fst (handleGenerateBatch w c)) ! (currentProductIndex c + i)) =
         map (failed_image (productsToProcess c ! i)) (enabledAngles c)) \<and>
      totalAnglesProcessed (fst (handleGenerateBatch w c)) =
        length (productsToProcess c) * length (enabledAngles c) \<and>
      status (fst (handleGenerateBatch w c)) = AppCompleted)"
proof (intro conjI impI)
  assume "key_of e key = []"
  then show "generateProductAngle_2 e rf pn pd a m tw key k = (Inl missing_api_key, [])"
    by (simp add: generateProductAngle_2.simps)
next
  assume "env_key e = []"
  then show "generateProductAngle e rf pn pd a m tw k = (Inl missing_env_key, [])"
    by (simp add: generateProductAngle.simps)
next
  assume h: "client w = client_2 envs \<and> (\<forall>n. key_of (envs n) (apiKey c) = []) \<and>
    products c \<noteq> [] \<and> \<not> stopRequested c"
  then have pc: "products c \<noteq> []" "\<not> stopRequested c" by simp_all
  from batch_run [OF pc, of w] obtain s where s:
    "handleGenerateBatch w c = (s, length (productsToProcess c) * length (enabledAngles c))"
    "status s = AppCompleted"
    "totalAnglesProcessed s = length (productsToProcess c) * length (enabledAngles c)"
    by blast
  from h have u: "unit_results w c product rest n = map (failed_image product) rest"
    for product rest n
    by (intro unit_results_nokey [of w envs c]) simp_all
  from s show "snd (handleGenerateBatch w c) =
      length (productsToProcess c) * length (enabledAngles c)" by simp
  from s show "totalAnglesProcessed (fst (handleGenerateBatch w c)) =
      length (productsToProcess c) * length (enabledAngles c)" by simp
  from s show "status (fst (handleGenerateBatch w c)) = AppCompleted" by simp
  show "\<forall>i<length (productsToProcess c).
         p_generatedImages
           (products (fst (handleGenerateBatch w c)) ! (currentProductIndex c + i)) =
         map (failed_image (productsToProcess c ! i)) (enabledAngles c)"
    using batch_results [OF pc, of _ w] u by simp
qed

theorem missing_credential_witness:
  "generateProductAngle_2 e_nokey [] ''Red'' ''A shoe'' ''Front view''
       ''gemini-2.5-flash-image'' 800 [] 0 = (Inl missing_api_key, []) \<and>
   generateProductAngle e_nokey [] ''Red'' ''A shoe'' ''Front view''
       ''gemini-2.5-flash-image'' 800 0 = (Inl missing_env_key, []) \<and>
   snd (handleGenerateBatch w_nokey c_nokey) = 2 \<and>
   p_generatedImages (products (fst (handleGenerateBatch w_nokey c_nokey)) ! 0) =
     [failed_image red front_view, failed_image red back_view] \<and>
   status (fst (handleGenerateBatch w_nokey c_nokey)) = AppCompleted"
proof -
  have p: "productsToProcess c_nokey = [red]"
    "enabledAngles c_nokey = [front_view, back_view]"
    by (simp_all add: productsToProcess_def enabledAngles_def c_nokey_def c_red_def
        front_view_def back_view_def)
  have k: "key_of e_nokey [] = []" "env_key e_nokey = []"
    by (simp_all add: key_of_def e_nokey_def e_parts_def)
  have w: "client w_nokey = client_2 (\<lambda>k. e_nokey)"
    by (simp add: w_nokey_def w_ok_def)
  have c: "apiKey c_nokey = []" "products c_nokey \<noteq> []" "\<not> stopRequested c_nokey"
    "currentProductIndex c_nokey = 0"
    by (simp_all add: c_nokey_def c_red_def)
  from missing_credential [of e_nokey "[]" "[]" "''Red''" "''A shoe''" "''Front view''"
      "''gemini-2.5-flash-image''" 800 0 w_nokey "\<lambda>k. e_nokey" c_nokey] p k w c
  show ?thesis by simp
qed

subsection \<open>The start of a run\<close>

text \<open>
  Claim C8, as stated, fails for the stop flag: the statements at the start of a run do
  not write it. A run started by a render in which the flag is set keeps it set through
  the start, makes no call and stores no result.
\<close>

theorem stale_flag_survives_run_start:
  "stopRequested (run_start c_stale c_stale) \<and>
   snd (handleGenerateBatch w_ok c_stale) = 0 \<and>
   p_generatedImages (products (fst (handleGenerateBatch w_ok c_stale)) ! 0) = []"
  by code_simp

text \<open>
  Claim C8, amended. The start of a run sets the total to the number of products in the
  slice from the current index, at most \<open>batchSize\<close> long and clipped to the catalog,
  times the number of enabled angles; it sets the processed-units counter and the
  request counter to 0 and replaces the log by the single start entry. It leaves the stop
  flag as it is: when the flag is set in the render of the handler, the run stops at its
  first test, before any unit, leaving the catalog as it was, and only then clears the
  flag.
\<close>

theorem run_start_resets:
  "totalAnglesToProcess (run_start c c) =
     length (productsToProcess c) * length (enabledAngles c) \<and>
   length (productsToProcess c) =
     min (currentProductIndex c + batchSize c) (length (products c)) - currentProductIndex c \<and>
   (\<forall>i<length (productsToProcess c).
      productsToProcess c ! i = products c ! (currentProductIndex c + i)) \<and>
   totalAnglesProcessed (run_start c c) = 0 \<and>
   apiRequestCount (run_start c c) = 0 \<and>
   activityLog (run_start c c) = [(StartingGeneration, Info)] \<and>
   stopRequested (run_start c c) = stopRequested c \<and>
   (products c \<noteq> [] \<and> productsToProcess c \<noteq> [] \<and> stopRequested c \<longrightarrow>
      handleGenerateBatch w c = (stop_run (run_start c c), 0) \<and>
      products (stop_run (run_start c c)) = products c \<and>
      \<not> stopRequested (stop_run (run_start c c)))"
  by (simp add: productsToProcess_length productsToProcess_nth batch_stale_stop
      stop_run_def)

theorem run_start_resets_witness:
  "totalAnglesToProcess (run_start c_stale c_stale) = 2 \<and>
   totalAnglesProcessed (run_start c_stale c_stale) = 0 \<and>
   apiRequestCount (run_start c_stale c_stale) = 0 \<and>
   activityLog (run_start c_stale c_stale) = [(StartingGeneration, Info)] \<and>
   stopRequested (run_start c_stale c_stale) \<and>
   snd (handleGenerateBatch w_ok c_stale) = 0 \<and>
   products (fst (handleGenerateBatch w_ok c_stale)) = [red] \<and>
   \<not> stopRequested (fst (handleGenerateBatch w_ok c_stale))"
proof -
  have p: "productsToProcess c_stale = [red]"
    "enabledAngles c_stale = [front_view, back_view]"
    by (simp_all add: productsToProcess_def enabledAngles_def c_stale_def c_red_def
        front_view_def back_view_def)
  have c: "products c_stale = [red]" "stopRequested c_stale"
    by (simp_all add: c_stale_def c_red_def)
  from run_start_resets [of c_stale w_ok] p c show ?thesis
    by simp
qed

subsection \<open>The catalog\<close>

lemma mset_insert_with [simp]: "mset (insert_with cmp x ys) = add_mset x (mset ys)"
  by (induction ys) simp_all

lemma mset_sort_with [simp]: "mset (sort_with cmp xs) = mset xs"
  by (induction xs) (simp_all add: sort_with_def)

lemma set_insert_with [simp]: "set (insert_with cmp x ys) = insert x (set ys)"
  by (induction ys) auto

lemma sorted_insert_with:
  assumes "consistent cmp" and "sorted_wrt (\<lambda>a b. cmp a b \<le> 0) ys"
  shows "sorted_wrt (\<lambda>a b. cmp a b \<le> 0) (insert_with cmp x ys)"
  using assms(2)
proof (induction ys)
  case Nil
  then show ?case by simp
next
  case (Cons y ys)
  from assms(1) have total: "cmp a b \<le> 0 \<or> cmp b a \<le> 0" for a b
    unfolding consistent_def by blast
  from assms(1) have trans: "cmp a b \<le> 0 \<Longrightarrow> cmp b d \<le> 0 \<Longrightarrow> cmp a d \<le> 0" for a b d
    unfolding consistent_def by blast
  from Cons.prems have tail: "sorted_wrt (\<lambda>a b. cmp a b \<le> 0) ys"
    and head: "\<forall>z\<in>set ys. cmp y z \<le> 0"
    by simp_all
  show ?case
  proof (cases "cmp x y \<le> 0")
    case True
    with head trans have "\<forall>z\<in>set ys. cmp x z \<le> 0" by blast
    with True head tail show ?thesis by simp
  next
    case False
    with total [of x y] have "cmp y x \<le> 0" by simp
    with False head Cons.IH [OF tail] show ?thesis by simp
  qed
qed

lemma sorted_sort_with:
  "consistent cmp \<Longrightarrow> sorted_wrt (\<lambda>a b. cmp a b \<le> 0) (sort_with cmp xs)"
  by (induction xs) (simp_all add: sort_with_def sorted_insert_with)

lemma consistent_compare_products:
  assumes "consistent localeCompare"
  shows "consistent (compare_products localeCompare)"
proof -
  from assms have total: "localeCompare a b \<le> 0 \<or> localeCompare b a \<le> 0" for a b
    unfolding consistent_def by blast
  from assms have trans:
    "localeCompare a b \<le> 0 \<Longrightarrow> localeCompare b d \<le> 0 \<Longrightarrow> localeCompare a d \<le> 0" for a b d
    unfolding consistent_def by blast
  show ?thesis
    unfolding consistent_def
  proof (intro conjI allI impI)
    fix a b
    show "compare_products localeCompare a b \<le> 0 \<or> compare_products localeCompare b a \<le> 0"
      using total [of "p_name a" "p_name b"]
      by (cases "startsWithNumber (p_name a)"; cases "startsWithNumber (p_name b)")
         (simp_all add: compare_products_def)
  next
    fix a b d
    assume h: "compare_products localeCompare a b \<le> 0 \<and>
      compare_products localeCompare b d \<le> 0"
    show "compare_products localeCompare a d \<le> 0"
    proof (cases "startsWithNumber (p_name a) = startsWithNumber (p_name d)")
      case False
      with h show ?thesis
        by (cases "startsWithNumber (p_name a)"; cases "startsWithNumber (p_name b)")
           (simp_all add: compare_products_def)
    next
      case True
      with h have "localeCompare (p_name a) (p_name b) \<le> 0 \<and>
          localeCompare (p_name b) (p_name d) \<le> 0"
        by (cases "startsWithNumber (p_name a)"; cases "startsWithNumber (p_name b)")
           (simp_all add: compare_products_def)
      with trans have "localeCompare (p_name a) (p_name d) \<le> 0" by blast
      with True show ?thesis by (simp add: compare_products_def)
    qed
  qed
qed

lemma products_handleSelectFolder:
  "files \<noteq> [] \<Longrightarrow>
   products (handleSelectFolder localeCompare files s) =
     sort_with (compare_products localeCompare) (build_products (organize files))"
  by (simp add: handleSelectFolder_def Let_def)

text \<open>
  Claim C10. When the browser's comparison is a consistent comparator, the catalog stored
  after a folder selection is a rearrangement of the groups that were built, in which no
  group whose name starts with a digit comes after a group whose name does not, and in
  which any two groups of the same kind stand in the order of the comparison of their
  names. This list is the \<open>products\<close> cell, which the handlers of a run read in order.
\<close>

theorem catalog_sorted:
  assumes "consistent localeCompare" and "files \<noteq> []"
  shows
    "mset (products (handleSelectFolder localeCompare files s)) =
       mset (build_products (organize files)) \<and>
     (\<forall>i j. i < j \<and> j < length (products (handleSelectFolder localeCompare files s)) \<longrightarrow>
        (startsWithNumber (p_name (products (handleSelectFolder localeCompare files s) ! j)) \<longrightarrow>
         startsWithNumber (p_name (products (handleSelectFolder localeCompare files s) ! i))) \<and>
        (startsWithNumber (p_name (products (handleSelectFolder localeCompare files s) ! i)) =
         startsWithNumber (p_name (products (handleSelectFolder localeCompare files s) ! j)) \<longrightarrow>
         localeCompare (p_name (products (handleSelectFolder localeCompare files s) ! i))
           (p_name (products (handleSelectFolder localeCompare files s) ! j)) \<le> 0))"
proof -
  let ?ps = "products (handleSelectFolder localeCompare files s)"
  have ps: "?ps = sort_with (compare_products localeCompare) (build_products (organize files))"
    using assms(2) by (rule products_handleSelectFolder)
  have "sorted_wrt (\<lambda>a b. compare_products localeCompare a b \<le> 0) ?ps"
    unfolding ps using assms(1) by (intro sorted_sort_with consistent_compare_products)
  then have le: "compare_products localeCompare (?ps ! i) (?ps ! j) \<le> 0"
    if "i < j" "j < length ?ps" for i j
    using that by (simp add: sorted_wrt_iff_nth_less)
  show ?thesis
  proof (intro conjI allI impI)
    show "mset ?ps = mset (build_products (organize files))"
      by (simp add: ps)
  next
    fix i j
    assume "i < j \<and> j < length ?ps" and "startsWithNumber (p_name (?ps ! j))"
    with le [of i j] show "startsWithNumber (p_name (?ps ! i))"
      by (cases "startsWithNumber (p_name (?ps ! i))") (simp_all add: compare_products_def)
  next
    fix i j
    assume "i < j \<and> j < length ?ps"
      and "startsWithNumber (p_name (?ps ! i)) = startsWithNumber (p_name (?ps ! j))"
    with le [of i j] show "localeCompare (p_name (?ps ! i)) (p_name (?ps ! j)) \<le> 0"
      by (cases "startsWithNumber (p_name (?ps ! j))") (simp_all add: compare_products_def)
  qed
qed

theorem catalog_sorted_witness:
  "consistent by_length \<and>
   map p_name (products (handleSelectFolder by_length shelf c_red)) =
     [''2Hats'', ''10Bags'', ''Shoes''] \<and>
   startsWithNumber (p_name (products (handleSelectFolder by_length shelf c_red) ! 0)) \<and>
   by_length (p_name (products (handleSelectFolder by_length shelf c_red) ! 0))
     (p_name (products (handleSelectFolder by_length shelf c_red) ! 1)) \<le> 0"
proof -
  let ?ps = "products (handleSelectFolder by_length shelf c_red)"
  have names: "map p_name ?ps = [''2Hats'', ''10Bags'', ''Shoes'']"
    by code_simp
  from arg_cong [OF names, of length] have len: "length ?ps = 3"
    by simp
  from arg_cong [OF names, of "\<lambda>l. l ! 1"] len have 1: "p_name (?ps ! 1) = ''10Bags''"
    by simp
  from arg_cong [OF names, of "\<lambda>l. l ! 0"] len have 0: "p_name (?ps ! 0) = ''2Hats''"
    by simp
  have c: "consistent by_length"
    by (auto simp: consistent_def by_length_def)
  have f: "shelf \<noteq> []" by (simp add: shelf_def)
  note sorted = catalog_sorted [OF c f, of c_red, THEN conjunct2, rule_format, of 0 1]
  from sorted len 0 1
  have "startsWithNumber (p_name (?ps ! 0)) \<and>
      by_length (p_name (?ps ! 0)) (p_name (?ps ! 1)) \<le> 0"
    by (simp add: startsWithNumber_def by_length_def)
  with c names show ?thesis by simp
qed

lemma consistent_by_length: "consistent by_length"
  by (auto simp: consistent_def by_length_def)

lemma non_images_ignored:
  "\<not> prefix ''image/'' (file_type file) \<Longrightarrow> organize_file file folderMap = folderMap"
  by (simp add: organize_file_def)

lemma build_products_nonempty: "product \<in> set (build_products folderMap) \<Longrightarrow> p_images product \<noteq> []"
  by (auto simp: build_products_def split: if_splits)

lemma set_sort_with [simp]: "set (sort_with cmp xs) = set xs"
  by (induction xs) (simp_all add: sort_with_def)

lemma catalog_groups_nonempty:
  "files \<noteq> [] \<Longrightarrow> product \<in> set (products (handleSelectFolder localeCompare files s)) \<Longrightarrow>
   p_images product \<noteq> []"
  by (simp add: products_handleSelectFolder build_products_nonempty)

text \<open>
  Claim C9 does not hold of the code. A picked image that lies directly in the root
  folder has the path parts \<open>[root, file]\<close>; the test \<open>pathParts.length < 2\<close> lets it
  through and its file name becomes a group, although the name is no folder. A colour
  folder called "default" loses its name: its group is named by the parent alone.
\<close>

theorem root_level_image_becomes_group:
  "map p_name (products (handleSelectFolder by_length stray c_red)) =
     [''Bags'', ''Shoes'', ''cover.png'']"
  by code_simp

end
